theory Spec2Isabelle
  imports Complex_Main "HOL-Library.Sublist" "HOL-Library.Stream" "HOL-Library.Multiset"
begin

section \<open>Python values and exceptions\<close>

text \<open>
  Python \<open>str\<close> values are modelled as \<^typ>\<open>string\<close>, one \<^typ>\<open>char\<close> per code point
  (code points below 256). Exceptions are values of \<open>error\<close>; a function that can raise
  returns \<open>error + 'a\<close> with \<open>Inl\<close> for the exception.
\<close>

datatype error =
    JSONDecodeError
  | RecursionError
  | TypeError
  | AttributeError
  | ValueError
  | KeyError
  | FileNotFoundError
  | RuntimeError

definition and_then :: "error + 'a \<Rightarrow> ('a \<Rightarrow> error + 'b) \<Rightarrow> error + 'b" where
  \<comment> \<open>run the next statement unless the last one raised\<close>
  "and_then r f = (case r of Inl e \<Rightarrow> Inl e | Inr v \<Rightarrow> f v)"

text \<open>
  What \<open>json.loads\<close> returns and \<open>json.dumps\<close> accepts. A Python \<open>dict\<close> keeps its
  insertion order, so an object is an association list. A float is given by the real
  number that is its value.
\<close>

datatype json =
    JNull
  | JBool bool
  | JInt int
  | JFloat real
  | JStr string
  | JArr "json list"
  | JObj "(string \<times> json) list"

section \<open>String methods used by the response parser\<close>

definition is_space :: "char \<Rightarrow> bool" where
  \<comment> \<open>\<open>str.isspace\<close> on code points below 256\<close>
  "is_space c =
     (let n = (of_char c :: nat)
      in (9 \<le> n \<and> n \<le> 13) \<or> (28 \<le> n \<and> n \<le> 32) \<or> n = 133 \<or> n = 160)"

definition str_strip :: "string \<Rightarrow> string" where
  "str_strip s = rev (dropWhile is_space (rev (dropWhile is_space s)))"

function str_replace :: "string \<Rightarrow> string \<Rightarrow> string \<Rightarrow> string" where
  "str_replace old new s =
     (if old = [] then new @ concat (map (\<lambda>c. c # new) s)
      else if s = [] then []
      else if prefix old s then new @ str_replace old new (drop (length old) s)
      else hd s # str_replace old new (tl s))"
  by pat_completeness auto
termination
  by (relation "measure (\<lambda>(old, new, s). length s)") (auto simp: neq_Nil_conv)

declare str_replace.simps [simp del]

fun find_from :: "string \<Rightarrow> int \<Rightarrow> string \<Rightarrow> int" where
  "find_from sub i [] = (if sub = [] then i else - 1)"
| "find_from sub i (c # cs) = (if prefix sub (c # cs) then i else find_from sub (i + 1) cs)"

definition str_find :: "string \<Rightarrow> string \<Rightarrow> int" where
  \<comment> \<open>\<open>s.find(sub)\<close>: the lowest index where \<open>sub\<close> starts, or -1\<close>
  "str_find s sub = find_from sub 0 s"

fun rfind_from :: "string \<Rightarrow> int \<Rightarrow> string \<Rightarrow> int" where
  "rfind_from sub i [] = (if sub = [] then i else - 1)"
| "rfind_from sub i (c # cs) =
     (let r = rfind_from sub (i + 1) cs
      in if r \<noteq> - 1 then r else if prefix sub (c # cs) then i else - 1)"

definition str_rfind :: "string \<Rightarrow> string \<Rightarrow> int" where
  \<comment> \<open>\<open>s.rfind(sub)\<close>: the highest index where \<open>sub\<close> starts, or -1\<close>
  "str_rfind s sub = rfind_from sub 0 s"

definition slice :: "string \<Rightarrow> int \<Rightarrow> int \<Rightarrow> string" where
  \<comment> \<open>\<open>s[start:stop]\<close> for indices that are not negative\<close>
  "slice s start stop = take (nat (stop - start)) (drop (nat start) s)"

section \<open>The response parser (src/methodology.py)\<close>

definition fence_json :: string where
  "fence_json = ''```json''"

definition fence :: string where
  "fence = ''```''"

definition cleaned :: "string \<Rightarrow> string" where
  \<comment> \<open>lines 37-38: the text handed to the decoder\<close>
  "cleaned text =
     str_strip (str_replace fence [] (str_replace fence_json [] (str_strip text)))"

definition error_sentinel :: "string \<Rightarrow> json" where
  "error_sentinel text = JObj [(''error'', JStr ''json_parse_failed''), (''raw'', JStr text)]"

text \<open>
  \<open>json.loads\<close> belongs to the standard library; it is a parameter \<open>loads\<close> of the
  parser. \<open>Inl JSONDecodeError\<close> is the only failure the \<open>except\<close> clause catches; the
  retry at line 46 runs inside the handler, outside any \<open>try\<close>.
\<close>

definition parse_json_response :: "(string \<Rightarrow> error + json) \<Rightarrow> string \<Rightarrow> error + json" where
  "parse_json_response loads text =
     (let c = cleaned text
      in case loads c of
           Inr v \<Rightarrow> Inr v
         | Inl JSONDecodeError \<Rightarrow>
             (let start = str_find c ''{''; end = str_rfind c ''}''
              in if start \<noteq> - 1 \<and> end \<noteq> - 1 then loads (slice c start (end + 1))
                 else Inr (error_sentinel text))
         | Inl e \<Rightarrow> Inl e)"

text \<open>
  A stand-in decoder given by a finite table of (text, decoded value) pairs; every other
  text is rejected. It is used only to run the parser on concrete inputs.
\<close>

definition loads_table :: "(string \<times> json) list \<Rightarrow> string \<Rightarrow> error + json" where
  "loads_table tbl s = (case map_of tbl s of Some v \<Rightarrow> Inr v | None \<Rightarrow> Inl JSONDecodeError)"

section \<open>Blind labelling (src/methodology.py)\<close>

text \<open>
  \<open>random.Random\<close> belongs to the standard library. The state of a generator is modelled
  by the sequence of raw values it will deliver; \<open>_randbelow(n)\<close> takes the next one and
  returns it reduced into \<open>range(n)\<close>, which is all the library promises of the result.
  \<open>shuffle\<close> is the library's loop
  \<^verbatim>\<open>for i in reversed(range(1, len(x))): j = randbelow(i + 1); x[i], x[j] = x[j], x[i]\<close>.
\<close>

type_synonym rng = "nat stream"

definition randbelow :: "nat \<Rightarrow> rng \<Rightarrow> nat \<times> rng" where
  "randbelow n g = (shd g mod n, stl g)"

fun shuffle_loop :: "nat \<Rightarrow> rng \<Rightarrow> 'a list \<Rightarrow> 'a list \<times> rng" where
  "shuffle_loop 0 g x = (x, g)"
| "shuffle_loop (Suc i) g x =
     (let (j, g') = randbelow (Suc i + 1) g
      in shuffle_loop i g' (x[Suc i := x ! j, j := x ! Suc i]))"

definition shuffle :: "rng \<Rightarrow> 'a list \<Rightarrow> 'a list \<times> rng" where
  "shuffle g x = shuffle_loop (length x - 1) g x"

text \<open>A \<open>dict\<close> from strings to strings, in insertion order.\<close>

type_synonym str_dict = "(string \<times> string) list"

definition prepare_blind_labels ::
  "rng \<Rightarrow> string \<Rightarrow> string \<Rightarrow> string \<Rightarrow> (str_dict \<times> str_dict) \<times> rng" where
  "prepare_blind_labels rng gpt google human =
     (let (entries, rng') = shuffle rng [(''GPT'', gpt), (''Google'', google), (''Human'', human)];
          labels = [(''A'', snd (entries ! 0)), (''B'', snd (entries ! 1)), (''C'', snd (entries ! 2))];
          mapping = [(''A'', fst (entries ! 0)), (''B'', fst (entries ! 1)), (''C'', fst (entries ! 2))]
      in ((labels, mapping), rng'))"

section \<open>Reading scores back (scripts/generate_tables.py)\<close>

text \<open>
  A decoded JSON object stands for the \<open>dict\<close> that \<open>json.loads\<close> builds: its keys are
  strings and no key occurs twice.
\<close>

type_synonym json_dict = "(string \<times> json) list"

definition dict_get :: "json_dict \<Rightarrow> string \<Rightarrow> json" where
  \<comment> \<open>\<open>d.get(k)\<close>: \<open>None\<close> for a missing key\<close>
  "dict_get d k = (case map_of d k of Some v \<Rightarrow> v | None \<Rightarrow> JNull)"

fun dict_set :: "json_dict \<Rightarrow> string \<Rightarrow> json \<Rightarrow> json_dict" where
  \<comment> \<open>\<open>d[k] = v\<close>: an existing key keeps its place, a new key goes last\<close>
  "dict_set [] k v = [(k, v)]"
| "dict_set ((k', v') # d) k v =
     (if k' = k then (k, v) # d else (k', v') # dict_set d k v)"

definition py_get :: "json \<Rightarrow> string \<Rightarrow> error + json" where
  \<comment> \<open>\<open>x.get(k)\<close>: only a \<open>dict\<close> has the method\<close>
  "py_get x k = (case x of JObj d \<Rightarrow> Inr (dict_get d k) | _ \<Rightarrow> Inl AttributeError)"

definition py_items :: "json \<Rightarrow> error + json_dict" where
  \<comment> \<open>\<open>x.items()\<close>\<close>
  "py_items x = (case x of JObj d \<Rightarrow> Inr d | _ \<Rightarrow> Inl AttributeError)"

definition initial_scores :: json_dict where
  "initial_scores = [(''GPT'', JNull), (''Google'', JNull), (''Human'', JNull)]"

text \<open>
  The loop of lines 28-30. \<open>target in scores\<close> hashes \<open>target\<close>: a list or a dict raises
  \<open>TypeError\<close>, a string is looked up, and no other value is a key of \<open>scores\<close>.
\<close>

fun assign_scores :: "json_dict \<Rightarrow> json_dict \<Rightarrow> json_dict \<Rightarrow> error + json_dict" where
  "assign_scores score_map scores [] = Inr scores"
| "assign_scores score_map scores ((label, target) # rest) =
     (case target of
        JStr t \<Rightarrow>
          assign_scores score_map
            (if t \<in> set (map fst scores) then dict_set scores t (dict_get score_map label)
             else scores) rest
      | JArr _ \<Rightarrow> Inl TypeError
      | JObj _ \<Rightarrow> Inl TypeError
      | _ \<Rightarrow> assign_scores score_map scores rest)"

definition parse_scores ::
  "(string \<Rightarrow> error + json) \<Rightarrow> string \<Rightarrow> string \<Rightarrow> error + json_dict" where
  "parse_scores loads evaluation_json mapping_json =
     and_then (loads evaluation_json) (\<lambda>eval_data.
     and_then (loads mapping_json) (\<lambda>mapping.
     and_then (py_get eval_data ''translation_A_score'') (\<lambda>a.
     and_then (py_get eval_data ''translation_B_score'') (\<lambda>b.
     and_then (py_get eval_data ''translation_C_score'') (\<lambda>c.
     and_then (py_items mapping) (\<lambda>items.
       assign_scores [(''A'', a), (''B'', b), (''C'', c)] initial_scores items))))))"

section \<open>The store (src/db.py)\<close>

text \<open>
  One record per table row, in the column order of \<open>init_db\<close>, each field named after
  its column with the table's initial in front; a table is the list of its rows in
  insertion order. Every column is \<open>NOT NULL\<close> and the Python signatures pass
  \<open>str\<close> and \<open>int\<close>, so a column holds a string or an integer. The \<open>seq_\<close> fields are
  the counters that \<open>AUTOINCREMENT\<close> keeps in \<open>sqlite_sequence\<close>: the largest row id
  ever drawn for the table.
\<close>

record run_row =
  r_id :: int
  r_created_at :: string
  r_provider :: string
  r_model :: string
  r_seed :: int
  r_config_hash :: string

record sentence =
  s_id :: int
  s_language :: string
  s_original_text :: string
  s_translation_human :: string
  s_translation_google :: string

record translation =
  t_id :: int
  t_run_id :: int
  t_sentence_id :: int
  t_translation_gpt :: string

record evaluation =
  e_id :: int
  e_run_id :: int
  e_sentence_id :: int
  e_evaluation_json :: string
  e_mapping_json :: string

record db =
  tbl_runs :: "run_row list"
  tbl_sentences :: "sentence list"
  tbl_translations :: "translation list"
  tbl_evaluations :: "evaluation list"
  seq_runs :: int
  seq_sentences :: int
  seq_translations :: int
  seq_evaluations :: int

definition empty_db :: db where
  \<comment> \<open>what \<open>init_db\<close> makes of a new database file\<close>
  "empty_db = \<lparr>tbl_runs = [], tbl_sentences = [], tbl_translations = [], tbl_evaluations = [],
               seq_runs = 0, seq_sentences = 0, seq_translations = 0, seq_evaluations = 0\<rparr>"

definition new_rowid :: "int \<Rightarrow> int list \<Rightarrow> int" where
  \<comment> \<open>\<open>AUTOINCREMENT\<close>: one more than the largest id in the table or ever used\<close>
  "new_rowid seq ids = foldr max ids seq + 1"

definition same_key :: "string \<Rightarrow> string \<Rightarrow> sentence \<Rightarrow> bool" where
  "same_key l orig s = (s_language s = l \<and> s_original_text s = orig)"

definition sentences_unique :: "db \<Rightarrow> bool" where
  \<comment> \<open>the table constraint \<open>UNIQUE(language, original_text)\<close>\<close>
  "sentences_unique conn = distinct (map (\<lambda>s. (s_language s, s_original_text s)) (tbl_sentences conn))"

definition insert_or_ignore_sentence ::
  "db \<Rightarrow> string \<Rightarrow> string \<Rightarrow> string \<Rightarrow> string \<Rightarrow> db" where
  \<comment> \<open>\<open>INSERT OR IGNORE\<close>: the row id is drawn and recorded in \<open>sqlite_sequence\<close> before
      the \<open>UNIQUE\<close> constraint is tested, so an ignored insert still uses up an id\<close>
  "insert_or_ignore_sentence conn l orig human google =
     (let i = new_rowid (seq_sentences conn) (map s_id (tbl_sentences conn))
      in if list_ex (same_key l orig) (tbl_sentences conn) then conn\<lparr>seq_sentences := i\<rparr>
         else conn\<lparr>tbl_sentences := tbl_sentences conn @
                      [\<lparr>s_id = i, s_language = l, s_original_text = orig,
                        s_translation_human = human, s_translation_google = google\<rparr>],
                    seq_sentences := i\<rparr>)"

definition insert_sentence ::
  "db \<Rightarrow> string \<Rightarrow> string \<Rightarrow> string \<Rightarrow> string \<Rightarrow> error + (int \<times> db)" where
  \<comment> \<open>\<open>fetchone()\<close> is \<open>None\<close> when no row matches, and \<open>row["id"]\<close> then raises \<open>TypeError\<close>\<close>
  "insert_sentence conn l orig human google =
     (let conn' = insert_or_ignore_sentence conn l orig human google
      in case find (same_key l orig) (tbl_sentences conn') of
           None \<Rightarrow> Inl TypeError
         | Some row \<Rightarrow> Inr (s_id row, conn'))"

definition insert_run ::
  "db \<Rightarrow> string \<Rightarrow> string \<Rightarrow> int \<Rightarrow> string \<Rightarrow> string \<Rightarrow> int \<times> db" where
  "insert_run conn provider model seed cfg_hash created_at =
     (let i = new_rowid (seq_runs conn) (map r_id (tbl_runs conn))
      in (i, conn\<lparr>tbl_runs := tbl_runs conn @
                     [\<lparr>r_id = i, r_created_at = created_at, r_provider = provider,
                       r_model = model, r_seed = seed, r_config_hash = cfg_hash\<rparr>],
                   seq_runs := i\<rparr>))"

definition insert_translation :: "db \<Rightarrow> int \<Rightarrow> int \<Rightarrow> string \<Rightarrow> db" where
  "insert_translation conn run_id sentence_id gpt =
     (let i = new_rowid (seq_translations conn) (map t_id (tbl_translations conn))
      in conn\<lparr>tbl_translations := tbl_translations conn @
                 [\<lparr>t_id = i, t_run_id = run_id, t_sentence_id = sentence_id,
                   t_translation_gpt = gpt\<rparr>],
               seq_translations := i\<rparr>)"

definition insert_evaluation :: "db \<Rightarrow> int \<Rightarrow> int \<Rightarrow> string \<Rightarrow> string \<Rightarrow> db" where
  "insert_evaluation conn run_id sentence_id ej mj =
     (let i = new_rowid (seq_evaluations conn) (map e_id (tbl_evaluations conn))
      in conn\<lparr>tbl_evaluations := tbl_evaluations conn @
                 [\<lparr>e_id = i, e_run_id = run_id, e_sentence_id = sentence_id,
                   e_evaluation_json = ej, e_mapping_json = mj\<rparr>],
               seq_evaluations := i\<rparr>)"

section \<open>Aggregation (scripts/generate_tables.py, lines 57-82)\<close>

text \<open>
  The scores of the table are Python floats, and the table is computed with the
  arithmetic of floats: the conversion \<open>float(v)\<close>, which can raise, the builtin \<open>sum\<close>
  of a list of floats, the division of a float by a length and the difference of two
  floats. These four are taken as they come, over a type \<open>'f\<close> of float values, so what
  is proved of the table holds for the floats of the machine, with their rounding,
  their infinities and their NaN.
\<close>

record 'f float_arith =
  to_float :: "json \<Rightarrow> error + 'f"
  float_sum :: "'f list \<Rightarrow> 'f"
  float_div :: "'f \<Rightarrow> nat \<Rightarrow> 'f"
  float_sub :: "'f \<Rightarrow> 'f \<Rightarrow> 'f"

text \<open>
  A row of \<open>cur.fetchall()\<close>, in the column order of the \<open>SELECT\<close>. One entry of \<open>accum\<close>
  is a group key \<open>(run_id, provider, model, language)\<close> with the three score lists that
  the \<open>defaultdict\<close> factory creates for it; \<open>accum\<close> keeps its entries in the order in
  which the keys came up.
\<close>

record fetched_row =
  f_run_id :: int
  f_provider :: string
  f_model :: string
  f_language :: string
  f_evaluation_json :: string
  f_mapping_json :: string

type_synonym group_key = "int \<times> string \<times> string \<times> string"

record 'f score_lists =
  vals_GPT :: "'f list"
  vals_Google :: "'f list"
  vals_Human :: "'f list"

type_synonym 'f accum = "(group_key \<times> 'f score_lists) list"

record 'f table_row =
  row_run_id :: int
  row_provider :: string
  row_model :: string
  row_language :: string
  gpt_self_score :: "'f option"
  google_score :: "'f option"
  human_score :: "'f option"
  bias_self_minus_human :: "'f option"

definition empty_lists :: "'f score_lists" where
  \<comment> \<open>the factory of the \<open>defaultdict\<close>\<close>
  "empty_lists = \<lparr>vals_GPT = [], vals_Google = [], vals_Human = []\<rparr>"

definition list_for :: "'f score_lists \<Rightarrow> string \<Rightarrow> error + 'f list" where
  \<comment> \<open>\<open>vals[k]\<close>\<close>
  "list_for vals k =
     (if k = ''GPT'' then Inr (vals_GPT vals)
      else if k = ''Google'' then Inr (vals_Google vals)
      else if k = ''Human'' then Inr (vals_Human vals)
      else Inl KeyError)"

definition with_list :: "'f score_lists \<Rightarrow> string \<Rightarrow> 'f list \<Rightarrow> 'f score_lists" where
  \<comment> \<open>\<open>vals\<close> with the list under \<open>k\<close> replaced\<close>
  "with_list vals k xs =
     (if k = ''GPT'' then vals\<lparr>vals_GPT := xs\<rparr>
      else if k = ''Google'' then vals\<lparr>vals_Google := xs\<rparr>
      else if k = ''Human'' then vals\<lparr>vals_Human := xs\<rparr>
      else vals)"

fun accum_put :: "('k \<times> 'v) list \<Rightarrow> 'k \<Rightarrow> 'v \<Rightarrow> ('k \<times> 'v) list" where
  \<comment> \<open>\<open>accum[key] = vals\<close>: an existing key keeps its place, a new key goes last\<close>
  "accum_put [] key vals = [(key, vals)]"
| "accum_put ((key', vals') # accum) key vals =
     (if key' = key then (key, vals) # accum else (key', vals') # accum_put accum key vals)"

definition append_score ::
  "'f float_arith \<Rightarrow> 'f accum \<Rightarrow> group_key \<Rightarrow> string \<Rightarrow> json \<Rightarrow> error + 'f accum" where
  \<comment> \<open>\<open>accum[key][k].append(float(v))\<close>: the entry is looked up, or made by the factory,
      then the list, then the argument is converted\<close>
  "append_score ar accum key k v =
     (let vals = (case map_of accum key of Some vals \<Rightarrow> vals | None \<Rightarrow> empty_lists)
      in and_then (list_for vals k) (\<lambda>xs.
         and_then (to_float ar v) (\<lambda>x.
           Inr (accum_put accum key (with_list vals k (xs @ [x]))))))"

fun add_scores ::
  "'f float_arith \<Rightarrow> 'f accum \<Rightarrow> group_key \<Rightarrow> json_dict \<Rightarrow> error + 'f accum" where
  \<comment> \<open>the loop over \<open>scores.items()\<close>, lines 61-63\<close>
  "add_scores ar accum key [] = Inr accum"
| "add_scores ar accum key ((k, v) # rest) =
     (if v = JNull then add_scores ar accum key rest
      else and_then (append_score ar accum key k v)
             (\<lambda>accum'. add_scores ar accum' key rest))"

definition row_key :: "fetched_row \<Rightarrow> group_key" where
  "row_key r = (f_run_id r, f_provider r, f_model r, f_language r)"

fun accumulate ::
  "'f float_arith \<Rightarrow> (string \<Rightarrow> error + json) \<Rightarrow> 'f accum \<Rightarrow> fetched_row list
     \<Rightarrow> error + 'f accum" where
  \<comment> \<open>the loop over the fetched rows, lines 58-63\<close>
  "accumulate ar loads accum [] = Inr accum"
| "accumulate ar loads accum (r # rest) =
     and_then (parse_scores loads (f_evaluation_json r) (f_mapping_json r)) (\<lambda>scores.
     and_then (add_scores ar accum (row_key r) scores) (\<lambda>accum'.
       accumulate ar loads accum' rest))"

definition average :: "'f float_arith \<Rightarrow> 'f list \<Rightarrow> 'f option" where
  \<comment> \<open>\<open>sum(v) / len(v) if v else None\<close>\<close>
  "average ar v = (if v = [] then None else Some (float_div ar (float_sum ar v) (length v)))"

definition summary_row :: "'f float_arith \<Rightarrow> group_key \<times> 'f score_lists \<Rightarrow> 'f table_row" where
  "summary_row ar entry =
     (case entry of ((run_id, provider, model, lang), vals) \<Rightarrow>
        let gpt = average ar (vals_GPT vals);
            google = average ar (vals_Google vals);
            human = average ar (vals_Human vals);
            bias = (case (gpt, human) of
                      (Some g, Some h) \<Rightarrow> Some (float_sub ar g h)
                    | _ \<Rightarrow> None)
        in \<lparr>row_run_id = run_id, row_provider = provider, row_model = model,
            row_language = lang, gpt_self_score = gpt, google_score = google,
            human_score = human, bias_self_minus_human = bias\<rparr>)"

definition summary_rows :: "'f float_arith \<Rightarrow> 'f accum \<Rightarrow> 'f table_row list" where
  \<comment> \<open>the loop over \<open>accum.items()\<close>, lines 65-82\<close>
  "summary_rows ar accum = map (summary_row ar) accum"

definition table_rows ::
  "'f float_arith \<Rightarrow> (string \<Rightarrow> error + json) \<Rightarrow> fetched_row list
     \<Rightarrow> error + 'f table_row list" where
  \<comment> \<open>\<open>rows\<close>, as line 84 hands it to the data frame\<close>
  "table_rows ar loads fetched =
     and_then (accumulate ar loads [] fetched) (\<lambda>accum. Inr (summary_rows ar accum))"

text \<open>
  Notions used to state what the table holds. The mean of a list of floats is its sum
  divided by the number of its terms, in the arithmetic of the floats. The scores of a
  group in a category are the floats of the scores that the group's evaluations, in the
  order fetched, hold for the category; an evaluation holds none when its score is
  \<open>None\<close>. The group of a row of the table is given by its first four columns.
\<close>

definition mean :: "'f float_arith \<Rightarrow> 'f list \<Rightarrow> 'f" where
  "mean ar xs = float_div ar (float_sum ar xs) (length xs)"

definition one_score :: "'f float_arith \<Rightarrow> string \<Rightarrow> string \<times> json \<Rightarrow> 'f list" where
  "one_score ar cat kv =
     (if fst kv = cat \<and> snd kv \<noteq> JNull
      then (case to_float ar (snd kv) of Inr x \<Rightarrow> [x] | Inl e \<Rightarrow> [])
      else [])"

definition scores_of :: "'f float_arith \<Rightarrow> json_dict \<Rightarrow> string \<Rightarrow> 'f list" where
  "scores_of ar scores cat = concat (map (one_score ar cat) scores)"

definition evaluation_scores ::
  "'f float_arith \<Rightarrow> (string \<Rightarrow> error + json) \<Rightarrow> group_key \<Rightarrow> string \<Rightarrow> fetched_row
     \<Rightarrow> 'f list" where
  "evaluation_scores ar loads key cat r =
     (if row_key r = key
      then (case parse_scores loads (f_evaluation_json r) (f_mapping_json r) of
              Inr scores \<Rightarrow> scores_of ar scores cat
            | Inl e \<Rightarrow> [])
      else [])"

definition group_scores ::
  "'f float_arith \<Rightarrow> (string \<Rightarrow> error + json) \<Rightarrow> fetched_row list \<Rightarrow> group_key \<Rightarrow> string
     \<Rightarrow> 'f list" where
  "group_scores ar loads fetched key cat =
     concat (map (evaluation_scores ar loads key cat) fetched)"

definition row_group :: "'f table_row \<Rightarrow> group_key" where
  "row_group row = (row_run_id row, row_provider row, row_model row, row_language row)"

text \<open>
  Three notions for the proofs: the lists that \<open>accum\<close> holds for a key, those of the
  factory when the key is missing; the list of a category, empty for a name that is no
  category; and that one of the three lists holds a score.
\<close>

definition lists_of :: "'f accum \<Rightarrow> group_key \<Rightarrow> 'f score_lists" where
  "lists_of accum key = (case map_of accum key of Some vals \<Rightarrow> vals | None \<Rightarrow> empty_lists)"

definition cat_list :: "'f score_lists \<Rightarrow> string \<Rightarrow> 'f list" where
  "cat_list vals cat = (case list_for vals cat of Inr xs \<Rightarrow> xs | Inl e \<Rightarrow> [])"

definition has_score :: "'f score_lists \<Rightarrow> bool" where
  "has_score vals = (\<exists>cat \<in> {''GPT'', ''Google'', ''Human''}. cat_list vals cat \<noteq> [])"

section \<open>The model gateway (src/llm, src/methodology.py)\<close>

text \<open>
  The hosted services are outside the program. Their state is a value of type \<open>'w\<close>; a
  request takes the state, and returns the reply with the next state or raises. The two
  \<open>_key\<close> fields say whether the API key is in the environment.
\<close>

record 'w gateway =
  openai_key :: bool
  gemini_key :: bool
  openai_create :: "'w \<Rightarrow> string \<Rightarrow> string \<Rightarrow> string \<Rightarrow> error + (string \<times> 'w)"
  gemini_generate :: "'w \<Rightarrow> string \<Rightarrow> string \<Rightarrow> error + (string \<times> 'w)"

definition openai_chat ::
  "'w gateway \<Rightarrow> 'w \<Rightarrow> string \<Rightarrow> string \<Rightarrow> string \<Rightarrow> error + (string \<times> 'w)" where
  "openai_chat gw w model system_prompt user_prompt =
     (if \<not> openai_key gw then Inl RuntimeError
      else and_then (openai_create gw w model system_prompt user_prompt)
             (\<lambda>(content, w'). Inr (str_strip content, w')))"

definition gemini_chat ::
  "'w gateway \<Rightarrow> 'w \<Rightarrow> string \<Rightarrow> string \<Rightarrow> string \<Rightarrow> error + (string \<times> 'w)" where
  "gemini_chat gw w model system_prompt user_prompt =
     (if \<not> gemini_key gw then Inl RuntimeError
      else and_then
             (gemini_generate gw w model
                (''SYSTEM:\<newline>'' @ system_prompt @ ''\<newline>\<newline>USER:\<newline>'' @ user_prompt))
             (\<lambda>(content, w'). Inr (str_strip content, w')))"

definition call_model ::
  "'w gateway \<Rightarrow> 'w \<Rightarrow> string \<Rightarrow> string \<Rightarrow> string \<Rightarrow> string \<Rightarrow> error + (string \<times> 'w)" where
  "call_model gw w provider model system_prompt user_prompt =
     (if provider = ''openai'' then openai_chat gw w model system_prompt user_prompt
      else if provider = ''gemini'' then gemini_chat gw w model system_prompt user_prompt
      else Inl ValueError)"

definition get_translation ::
  "'w gateway \<Rightarrow> 'w \<Rightarrow> string \<Rightarrow> string \<Rightarrow> string \<Rightarrow> string \<Rightarrow> error + (string \<times> 'w)" where
  "get_translation gw w provider model system_prompt user_prompt =
     call_model gw w provider model system_prompt user_prompt"

definition FD_FRAMEWORK :: string where
  "FD_FRAMEWORK =
     ''\<newline>''
     @ ''Force Dynamics (Talmy, 2000) Framework:\<newline>''
     @ ''\<newline>''
     @ ''CORE CONCEPTS:\<newline>''
     @ ''- Agonist: The entity whose situation is being described (typically the ''
     @ ''subject)\<newline>''
     @ ''- Antagonist: The opposing force entity (may be explicit or implicit)\<newline>''
     @ ''- Force Relations: How Agonist and Antagonist interact\<newline>''
     @ ''\<newline>''
     @ ''FORCE RELATION TYPES:\<newline>''
     @ ''1. Causation: Antagonist causes Agonist to act/change state\<newline>''
     @ ''2. Permission/Letting: Antagonist allows Agonist to act\<newline>''
     @ ''3. Blocking/Prevention: Antagonist prevents Agonist from acting\<newline>''
     @ ''4. Overcoming: Agonist overcomes opposing force\<newline>''"

definition evaluation_prompt :: "string \<Rightarrow> string \<Rightarrow> string \<Rightarrow> string \<Rightarrow> string" where
  \<open>evaluation_prompt original translation_a translation_b translation_c =
     ''Evaluate three translations of the same English sentence, focusing EXCLUSIVELY ''
     @ ''on the verb phrase and its preservation of Force Dynamics relations.\<newline>''
     @ ''\<newline>''
     @ FD_FRAMEWORK
     @ ''\<newline>''
     @ ''\<newline>''
     @ ''EVALUATION CRITERIA:\<newline>''
     @ ''\<newline>''
     @ ''1. Lexis (verb phrase only):\<newline>''
     @ ''   - Word choice appropriateness\<newline>''
     @ ''   - Idiomaticity in target language\<newline>''
     @ ''   - Register appropriateness\<newline>''
     @ ''\<newline>''
     @ ''2. Syntax (verb phrase only):\<newline>''
     @ ''   - Grammatical accuracy\<newline>''
     @ ''   - Structural correctness\<newline>''
     @ ''   - Word order appropriateness\<newline>''
     @ ''\<newline>''
     @ ''3. Semantics (verb phrase only):\<newline>''
     @ ''   - Meaning preservation\<newline>''
     @ ''   - Force Dynamics relations:\<newline>''
     @ ''     * Identify Agonist and Antagonist (if present)\<newline>''
     @ ''     * Identify force relation type (causation, permission, blocking, ''
     @ ''etc.)\<newline>''
     @ ''     * Assess preservation of FD structure from source\<newline>''
     @ ''\<newline>''
     @ ''Original sentence (English): ''
     @ original
     @ ''\<newline>''
     @ ''\<newline>''
     @ ''Translation A: ''
     @ translation_a
     @ ''\<newline>''
     @ ''Translation B: ''
     @ translation_b
     @ ''\<newline>''
     @ ''Translation C: ''
     @ translation_c
     @ ''\<newline>''
     @ ''\<newline>''
     @ ''For each translation (A, B, C):\<newline>''
     @ ''1. Describe the verb phrase in terms of lexis, syntax, semantics (including ''
     @ ''FD analysis)\<newline>''
     @ ''2. Provide a numerical score (0.0 to 1.0) for verb phrase quality\<newline>''
     @ ''\<newline>''
     @ ''Output format (JSON only, no other text):\<newline>''
     @ ''{\<newline>''
     @ ''  "translation_A_description": "string",\<newline>''
     @ ''  "translation_A_score": float,\<newline>''
     @ ''  "translation_B_description": "string",\<newline>''
     @ ''  "translation_B_score": float,\<newline>''
     @ ''  "translation_C_description": "string",\<newline>''
     @ ''  "translation_C_score": float,\<newline>''
     @ ''  "comparison": "string"\<newline>''
     @ ''}\<newline>''\<close>

definition blind_evaluate ::
  "'w gateway \<Rightarrow> (string \<Rightarrow> error + json) \<Rightarrow> 'w \<Rightarrow> string \<Rightarrow> string \<Rightarrow> string \<Rightarrow> string
     \<Rightarrow> string \<Rightarrow> string \<Rightarrow> string \<Rightarrow> error + (json \<times> 'w)" where
  "blind_evaluate gw loads w provider model system_prompt original
       translation_a translation_b translation_c =
     and_then
       (call_model gw w provider model system_prompt
          (evaluation_prompt original translation_a translation_b translation_c))
       (\<lambda>(response, w'). and_then (parse_json_response loads response) (\<lambda>v. Inr (v, w')))"

section \<open>The orchestrator (src/pipeline.py)\<close>

text \<open>
  The configuration as \<open>run_pipeline\<close> reads it; \<open>cfg_seed\<close> is \<open>None\<close> when the key is
  missing. A seed file is a list of rows with the four columns the loader reads.
\<close>

record model_cfg =
  cfg_provider :: string
  cfg_name :: string

record config =
  cfg_database :: string
  cfg_seed :: "int option"
  cfg_languages :: "string list"
  cfg_seed_dir :: string
  cfg_models :: "model_cfg list"
  cfg_translation_system :: string
  cfg_evaluation_system :: string

record csv_row =
  csv_language :: string
  csv_original_text :: string
  csv_translation_human :: string
  csv_translation_google :: string

text \<open>
  What the orchestrator takes from outside the repository: the gateway, the seed files
  (\<open>read_csv seed_dir lang\<close> is \<open>None\<close> when the file does not exist), the clock, the
  JSON codec, the constructor \<open>random.Random(seed)\<close>, the hash of the configuration and
  the string method \<open>str.capitalize\<close>. The method follows the case tables of Unicode
  (accented letters have capitals, and the capital of the German sharp s is two
  letters), which are not part of the repository: nothing is assumed about it.
\<close>

record 'w env =
  env_gateway :: "'w gateway"
  read_csv :: "string \<Rightarrow> string \<Rightarrow> csv_row list option"
  utcnow :: "'w \<Rightarrow> string"
  json_loads :: "string \<Rightarrow> error + json"
  json_dumps :: "json \<Rightarrow> string"
  Random :: "int \<Rightarrow> rng"
  config_hash :: "config \<Rightarrow> string"
  capitalize :: "string \<Rightarrow> string"

fun load_rows :: "db \<Rightarrow> csv_row list \<Rightarrow> error + db" where
  "load_rows conn [] = Inr conn"
| "load_rows conn (row # rest) =
     and_then
       (insert_sentence conn (csv_language row) (csv_original_text row)
          (csv_translation_human row) (csv_translation_google row))
       (\<lambda>(i, conn'). load_rows conn' rest)"

fun load_seed_data :: "'w env \<Rightarrow> db \<Rightarrow> string \<Rightarrow> string list \<Rightarrow> error + db" where
  "load_seed_data env conn seed_dir [] = Inr conn"
| "load_seed_data env conn seed_dir (lang # rest) =
     (case read_csv env seed_dir lang of
        None \<Rightarrow> Inl FileNotFoundError
      | Some df \<Rightarrow>
          and_then (load_rows conn df) (\<lambda>conn'. load_seed_data env conn' seed_dir rest))"

definition select_sentences :: "db \<Rightarrow> string \<Rightarrow> sentence list" where
  \<comment> \<open>\<open>SELECT ... FROM sentences WHERE language = ? ORDER BY id\<close>\<close>
  "select_sentences conn l = sort_key s_id (filter (\<lambda>s. s_language s = l) (tbl_sentences conn))"

definition dict_lookup :: "str_dict \<Rightarrow> string \<Rightarrow> error + string" where
  \<comment> \<open>\<open>d[k]\<close>\<close>
  "dict_lookup d k = (case map_of d k of None \<Rightarrow> Inl KeyError | Some v \<Rightarrow> Inr v)"

definition mapping_json_obj :: "str_dict \<Rightarrow> json" where
  \<comment> \<open>the provenance map as the value \<open>json.dumps\<close> receives\<close>
  "mapping_json_obj mapping = JObj (map (\<lambda>(k, v). (k, JStr v)) mapping)"

text \<open>The body of the innermost loop (lines 64-85), for one selected row.\<close>

definition process_row ::
  "'w env \<Rightarrow> config \<Rightarrow> model_cfg \<Rightarrow> int \<Rightarrow> string \<Rightarrow> db \<times> rng \<times> 'w \<Rightarrow> sentence
     \<Rightarrow> error + (db \<times> rng \<times> 'w)" where
  "process_row env cfg m run_id lang st row =
     (case st of (conn, rng, w) \<Rightarrow>
      let original = s_original_text row;
          human = s_translation_human row;
          google = s_translation_google row;
          user_prompt = ''Translate the following sentence from English to ''
                          @ capitalize env lang @ '':\<newline>\<newline>'' @ original
      in and_then
           (get_translation (env_gateway env) w (cfg_provider m) (cfg_name m)
              (cfg_translation_system cfg) user_prompt)
           (\<lambda>(translation_gpt, w1).
              case prepare_blind_labels rng translation_gpt google human of
                ((labels, mapping), rng1) \<Rightarrow>
                  and_then (dict_lookup labels ''A'') (\<lambda>a.
                  and_then (dict_lookup labels ''B'') (\<lambda>b.
                  and_then (dict_lookup labels ''C'') (\<lambda>c.
                  and_then
                    (blind_evaluate (env_gateway env) (json_loads env) w1 (cfg_provider m)
                       (cfg_name m) (cfg_evaluation_system cfg) original a b c)
                    (\<lambda>(evaluation, w2).
                       let conn1 = insert_translation conn run_id (s_id row) translation_gpt;
                           conn2 = insert_evaluation conn1 run_id (s_id row)
                                     (json_dumps env evaluation)
                                     (json_dumps env (mapping_json_obj mapping))
                       in Inr (conn2, rng1, w2)))))))"

fun run_rows ::
  "'w env \<Rightarrow> config \<Rightarrow> model_cfg \<Rightarrow> int \<Rightarrow> string \<Rightarrow> db \<times> rng \<times> 'w \<Rightarrow> sentence list
     \<Rightarrow> error + (db \<times> rng \<times> 'w)" where
  "run_rows env cfg m run_id lang st [] = Inr st"
| "run_rows env cfg m run_id lang st (row # rest) =
     and_then (process_row env cfg m run_id lang st row)
       (\<lambda>st'. run_rows env cfg m run_id lang st' rest)"

fun run_languages ::
  "'w env \<Rightarrow> config \<Rightarrow> model_cfg \<Rightarrow> int \<Rightarrow> db \<times> rng \<times> 'w \<Rightarrow> string list
     \<Rightarrow> error + (db \<times> rng \<times> 'w)" where
  "run_languages env cfg m run_id st [] = Inr st"
| "run_languages env cfg m run_id st (lang # rest) =
     and_then
       (run_rows env cfg m run_id lang st (select_sentences (fst st) (capitalize env lang)))
       (\<lambda>st'. run_languages env cfg m run_id st' rest)"

fun run_models ::
  "'w env \<Rightarrow> config \<Rightarrow> int \<Rightarrow> string \<Rightarrow> db \<times> 'w \<Rightarrow> model_cfg list \<Rightarrow> error + (db \<times> 'w)" where
  "run_models env cfg seed cfg_hash st [] = Inr st"
| "run_models env cfg seed cfg_hash st (m # rest) =
     (case st of (conn, w) \<Rightarrow>
      let created_at = utcnow env w;
          (run_id, conn1) = insert_run conn (cfg_provider m) (cfg_name m) seed cfg_hash created_at;
          rng = Random env (seed + run_id)
      in and_then (run_languages env cfg m run_id (conn1, rng, w) (cfg_languages cfg))
           (\<lambda>(conn2, rng2, w2). run_models env cfg seed cfg_hash (conn2, w2) rest))"

text \<open>
  \<open>run_pipeline\<close>, from the database as \<open>connect\<close> and \<open>init_db\<close> leave it. A result
  \<open>Inl e\<close> is the exception that ends the call.
\<close>

definition config_seed :: "config \<Rightarrow> int" where
  \<comment> \<open>\<open>int(config.get("seed", 42))\<close>\<close>
  \<open>config_seed cfg = (case cfg_seed cfg of None \<Rightarrow> 42 | Some s \<Rightarrow> s)\<close>

definition run_pipeline :: "'w env \<Rightarrow> config \<Rightarrow> db \<Rightarrow> 'w \<Rightarrow> error + (db \<times> 'w)" where
  "run_pipeline env cfg conn w =
     (let seed = config_seed cfg;
          languages = cfg_languages cfg;
          seed_dir = cfg_seed_dir cfg
      in and_then (load_seed_data env conn seed_dir languages)
           (\<lambda>conn1. run_models env cfg seed (config_hash env cfg) (conn1, w) (cfg_models cfg)))"

text \<open>
  Notions used to state what a call of \<open>run_pipeline\<close> adds to the store: the owner of a
  row, the rows a run goes through (for each configured language in turn, the rows the
  query selects), the provenance map drawn in a generator state (taken at empty texts; it
  is the same for all texts), the rows' owners and stored provenance maps that a run with
  a given generator writes, and the identities that \<open>AUTOINCREMENT\<close> gives to the next
  \<open>n\<close> runs.
\<close>

definition translation_key :: "translation \<Rightarrow> int \<times> int" where
  "translation_key t = (t_run_id t, t_sentence_id t)"

definition evaluation_key :: "evaluation \<Rightarrow> int \<times> int" where
  "evaluation_key e = (e_run_id e, e_sentence_id e)"

definition evaluation_entry :: "evaluation \<Rightarrow> int \<times> int \<times> string" where
  "evaluation_entry e = (e_run_id e, e_sentence_id e, e_mapping_json e)"

definition visited :: "'w env \<Rightarrow> db \<Rightarrow> string list \<Rightarrow> sentence list" where
  "visited env conn langs = concat (map (\<lambda>lang. select_sentences conn (capitalize env lang)) langs)"

definition provenance_at :: "rng \<Rightarrow> str_dict" where
  "provenance_at g = snd (fst (prepare_blind_labels g [] [] []))"

fun run_entries :: "'w env \<Rightarrow> int \<Rightarrow> rng \<Rightarrow> sentence list \<Rightarrow> (int \<times> int \<times> string) list" where
  "run_entries env i g [] = []"
| "run_entries env i g (row # rest) =
     (i, s_id row, json_dumps env (mapping_json_obj (provenance_at g)))
       # run_entries env i (sdrop 2 g) rest"

definition run_ids :: "db \<Rightarrow> nat \<Rightarrow> int list" where
  "run_ids conn n =
     map (\<lambda>j. new_rowid (seq_runs conn) (map r_id (tbl_runs conn)) + int j) [0..<n]"













section \<open>A scripted environment\<close>

text \<open>
  A concrete environment for running the orchestrator: the gateway answers from a queue
  of scripted replies (the state of the outside world) and raises when the queue is
  empty, the seed files and the decoder are finite tables, \<open>show_map\<close> writes a
  provenance map as \<open>{A:GPT;B:Human;C:Google;}\<close>, the generator seeded with \<open>n\<close>
  delivers \<open>n, n + 1, ...\<close>, and \<open>capitalize\<close> is the method on ASCII text, which is all the
  runs below hold.
\<close>

definition scripted_create ::
  "string list \<Rightarrow> string \<Rightarrow> string \<Rightarrow> string \<Rightarrow> error + (string \<times> string list)" where
  "scripted_create w model system_prompt user_prompt =
     (case w of [] \<Rightarrow> Inl RuntimeError | reply # rest \<Rightarrow> Inr (reply, rest))"

definition show_map :: "json \<Rightarrow> string" where
  "show_map v =
     (case v of
        JObj kvs \<Rightarrow>
          ''{'' @ concat (map (\<lambda>(k, x). k @ '':'' @ (case x of JStr s \<Rightarrow> s | _ \<Rightarrow> ''?'') @ '';'') kvs)
            @ ''}''
      | _ \<Rightarrow> ''?'')"

definition ascii_upper :: "char \<Rightarrow> char" where
  "ascii_upper c =
     (case map_of (zip ''abcdefghijklmnopqrstuvwxyz'' ''ABCDEFGHIJKLMNOPQRSTUVWXYZ'') c of
        Some u \<Rightarrow> u | None \<Rightarrow> c)"

definition ascii_lower :: "char \<Rightarrow> char" where
  "ascii_lower c =
     (case map_of (zip ''ABCDEFGHIJKLMNOPQRSTUVWXYZ'' ''abcdefghijklmnopqrstuvwxyz'') c of
        Some u \<Rightarrow> u | None \<Rightarrow> c)"

definition ascii_capitalize :: "string \<Rightarrow> string" where
  \<comment> \<open>what \<open>str.capitalize\<close> does to text of ASCII characters: first character upper
      case, the rest lower case\<close>
  "ascii_capitalize s = (case s of [] \<Rightarrow> [] | c # cs \<Rightarrow> ascii_upper c # map ascii_lower cs)"

definition scripted_env ::
  "(string \<times> csv_row list) list \<Rightarrow> (string \<times> json) list \<Rightarrow> string list env" where
  "scripted_env files tbl =
     \<lparr>env_gateway =
        \<lparr>openai_key = True, gemini_key = False, openai_create = scripted_create,
          gemini_generate = (\<lambda>w model content. Inl RuntimeError)\<rparr>,
      read_csv = (\<lambda>seed_dir lang. map_of files lang),
      utcnow = (\<lambda>w. ''2024-01-01T00:00:00''),
      json_loads = loads_table tbl,
      json_dumps = show_map,
      Random = (\<lambda>seed. siterate Suc (nat seed)),
      config_hash = (\<lambda>cfg. ''c0ffee''),
      capitalize = ascii_capitalize\<rparr>"

text \<open>
  Two concrete runs from an empty store. In the first the configuration lists the
  language twice, as \<open>finnish\<close> and as \<open>Finnish\<close>, each with a seed file whose rows carry
  the spelling of the file's name. In the second one language and two models are
  configured, and the seed file holds two sentences under \<open>Finnish\<close>. The \<open>_result\<close>
  values are the stores the runs end with.
\<close>

definition two_spellings_cfg :: config where
  "two_spellings_cfg =
     \<lparr>cfg_database = ''results.db'', cfg_seed = None,
      cfg_languages = [''finnish'', ''Finnish''], cfg_seed_dir = ''data'',
      cfg_models = [\<lparr>cfg_provider = ''openai'', cfg_name = ''gpt-4o''\<rparr>],
      cfg_translation_system = ''Translate.'', cfg_evaluation_system = ''Evaluate.''\<rparr>"

definition two_spellings_files :: "(string \<times> csv_row list) list" where
  "two_spellings_files =
     [(''finnish'', [\<lparr>csv_language = ''finnish'', csv_original_text = ''Hello.'',
                      csv_translation_human = ''Hei.'', csv_translation_google = ''Terve.''\<rparr>]),
      (''Finnish'', [\<lparr>csv_language = ''Finnish'', csv_original_text = ''A fine day.'',
                      csv_translation_human = ''Upea.'', csv_translation_google = ''Hieno.''\<rparr>])]"

definition two_spellings_result :: db where
  "two_spellings_result =
     \<lparr>tbl_runs =
        [\<lparr>r_id = 1, r_created_at = ''2024-01-01T00:00:00'', r_provider = ''openai'',
          r_model = ''gpt-4o'', r_seed = 42, r_config_hash = ''c0ffee''\<rparr>],
      tbl_sentences =
        [\<lparr>s_id = 1, s_language = ''finnish'', s_original_text = ''Hello.'',
          s_translation_human = ''Hei.'', s_translation_google = ''Terve.''\<rparr>,
         \<lparr>s_id = 2, s_language = ''Finnish'', s_original_text = ''A fine day.'',
          s_translation_human = ''Upea.'', s_translation_google = ''Hieno.''\<rparr>],
      tbl_translations =
        [\<lparr>t_id = 1, t_run_id = 1, t_sentence_id = 2, t_translation_gpt = ''Kaunis.''\<rparr>,
         \<lparr>t_id = 2, t_run_id = 1, t_sentence_id = 2, t_translation_gpt = ''Kaunis.''\<rparr>],
      tbl_evaluations =
        [\<lparr>e_id = 1, e_run_id = 1, e_sentence_id = 2, e_evaluation_json = ''{}'',
          e_mapping_json = ''{A:Human;B:GPT;C:Google;}''\<rparr>,
         \<lparr>e_id = 2, e_run_id = 1, e_sentence_id = 2, e_evaluation_json = ''{}'',
          e_mapping_json = ''{A:Google;B:Human;C:GPT;}''\<rparr>],
      seq_runs = 1, seq_sentences = 2, seq_translations = 2, seq_evaluations = 2\<rparr>"

definition two_models_cfg :: config where
  "two_models_cfg =
     \<lparr>cfg_database = ''results.db'', cfg_seed = Some 7,
      cfg_languages = [''finnish''], cfg_seed_dir = ''data'',
      cfg_models = [\<lparr>cfg_provider = ''openai'', cfg_name = ''gpt-4o''\<rparr>,
                    \<lparr>cfg_provider = ''openai'', cfg_name = ''gpt-4o-mini''\<rparr>],
      cfg_translation_system = ''Translate.'', cfg_evaluation_system = ''Evaluate.''\<rparr>"

definition finnish_files :: "(string \<times> csv_row list) list" where
  "finnish_files =
     [(''finnish'', [\<lparr>csv_language = ''Finnish'', csv_original_text = ''A fine day.'',
                      csv_translation_human = ''Upea.'', csv_translation_google = ''Hieno.''\<rparr>,
                     \<lparr>csv_language = ''Finnish'', csv_original_text = ''Hello.'',
                      csv_translation_human = ''Hei.'', csv_translation_google = ''Terve.''\<rparr>])]"

definition two_models_result :: db where
  "two_models_result =
     \<lparr>tbl_runs =
        [\<lparr>r_id = 1, r_created_at = ''2024-01-01T00:00:00'', r_provider = ''openai'',
          r_model = ''gpt-4o'', r_seed = 7, r_config_hash = ''c0ffee''\<rparr>,
         \<lparr>r_id = 2, r_created_at = ''2024-01-01T00:00:00'', r_provider = ''openai'',
          r_model = ''gpt-4o-mini'', r_seed = 7, r_config_hash = ''c0ffee''\<rparr>],
      tbl_sentences =
        [\<lparr>s_id = 1, s_language = ''Finnish'', s_original_text = ''A fine day.'',
          s_translation_human = ''Upea.'', s_translation_google = ''Hieno.''\<rparr>,
         \<lparr>s_id = 2, s_language = ''Finnish'', s_original_text = ''Hello.'',
          s_translation_human = ''Hei.'', s_translation_google = ''Terve.''\<rparr>],
      tbl_translations =
        [\<lparr>t_id = 1, t_run_id = 1, t_sentence_id = 1, t_translation_gpt = ''Kaunis.''\<rparr>,
         \<lparr>t_id = 2, t_run_id = 1, t_sentence_id = 2, t_translation_gpt = ''Moi.''\<rparr>,
         \<lparr>t_id = 3, t_run_id = 2, t_sentence_id = 1, t_translation_gpt = ''Ihana.''\<rparr>,
         \<lparr>t_id = 4, t_run_id = 2, t_sentence_id = 2, t_translation_gpt = ''Hei hei.''\<rparr>],
      tbl_evaluations =
        [\<lparr>e_id = 1, e_run_id = 1, e_sentence_id = 1, e_evaluation_json = ''{}'',
          e_mapping_json = ''{A:GPT;B:Google;C:Human;}''\<rparr>,
         \<lparr>e_id = 2, e_run_id = 1, e_sentence_id = 2, e_evaluation_json = ''{}'',
          e_mapping_json = ''{A:GPT;B:Human;C:Google;}''\<rparr>,
         \<lparr>e_id = 3, e_run_id = 2, e_sentence_id = 1, e_evaluation_json = ''{}'',
          e_mapping_json = ''{A:Google;B:Human;C:GPT;}''\<rparr>,
         \<lparr>e_id = 4, e_run_id = 2, e_sentence_id = 2, e_evaluation_json = ''{}'',
          e_mapping_json = ''{A:Google;B:GPT;C:Human;}''\<rparr>],
      seq_runs = 2, seq_sentences = 2, seq_translations = 4, seq_evaluations = 4\<rparr>"

text \<open>
  An arithmetic without rounding, to run the aggregation on scores that binary floats
  add, halve and subtract exactly. It converts the numbers of JSON, and the run below
  holds no other score.
\<close>

definition exact_arith :: "real float_arith" where
  "exact_arith =
     \<lparr>to_float = (\<lambda>v. case v of JFloat x \<Rightarrow> Inr x | JInt n \<Rightarrow> Inr (of_int n)
                          | _ \<Rightarrow> Inl TypeError),
      float_sum = sum_list,
      float_div = (\<lambda>x n. x / of_nat n),
      float_sub = (\<lambda>x y. x - y)\<rparr>"

text \<open>
  A table to run the aggregation on: three evaluations, two of the group
  \<open>(1, openai, gpt-4o, Finnish)\<close> and one of the group \<open>(1, openai, gpt-4o, Polish)\<close> that
  holds a score for label \<open>A\<close> only.
\<close>

definition table_loads :: "string \<Rightarrow> error + json" where
  \<open>table_loads =
     loads_table
       [(''{"translation_A_score": 0.5, "translation_B_score": 0.25, "translation_C_score": 0.75}'',
         JObj [(''translation_A_score'', JFloat 0.5), (''translation_B_score'', JFloat 0.25),
               (''translation_C_score'', JFloat 0.75)]),
        (''{"translation_A_score": 0.25, "translation_B_score": 1.0, "translation_C_score": 0.5}'',
         JObj [(''translation_A_score'', JFloat 0.25), (''translation_B_score'', JFloat 1.0),
               (''translation_C_score'', JFloat 0.5)]),
        (''{"translation_A_score": 0.5}'',
         JObj [(''translation_A_score'', JFloat 0.5)]),
        (''{"A": "GPT", "B": "Human", "C": "Google"}'',
         JObj [(''A'', JStr ''GPT''), (''B'', JStr ''Human''), (''C'', JStr ''Google'')]),
        (''{"A": "Human", "B": "GPT", "C": "Google"}'',
         JObj [(''A'', JStr ''Human''), (''B'', JStr ''GPT''), (''C'', JStr ''Google'')])]\<close>

definition table_fetched :: "fetched_row list" where
  \<open>table_fetched =
     [\<lparr>f_run_id = 1, f_provider = ''openai'', f_model = ''gpt-4o'', f_language = ''Finnish'',
       f_evaluation_json =
         ''{"translation_A_score": 0.5, "translation_B_score": 0.25, "translation_C_score": 0.75}'',
       f_mapping_json = ''{"A": "GPT", "B": "Human", "C": "Google"}''\<rparr>,
      \<lparr>f_run_id = 1, f_provider = ''openai'', f_model = ''gpt-4o'', f_language = ''Finnish'',
       f_evaluation_json =
         ''{"translation_A_score": 0.25, "translation_B_score": 1.0, "translation_C_score": 0.5}'',
       f_mapping_json = ''{"A": "Human", "B": "GPT", "C": "Google"}''\<rparr>,
      \<lparr>f_run_id = 1, f_provider = ''openai'', f_model = ''gpt-4o'', f_language = ''Polish'',
       f_evaluation_json = ''{"translation_A_score": 0.5}'',
       f_mapping_json = ''{"A": "GPT", "B": "Human", "C": "Google"}''\<rparr>]\<close>

definition table_result :: "real table_row list" where
  "table_result =
     [\<lparr>row_run_id = 1, row_provider = ''openai'', row_model = ''gpt-4o'',
       row_language = ''Finnish'', gpt_self_score = Some 0.75, google_score = Some 0.625,
       human_score = Some 0.25, bias_self_minus_human = Some 0.5\<rparr>,
      \<lparr>row_run_id = 1, row_provider = ''openai'', row_model = ''gpt-4o'',
       row_language = ''Polish'', gpt_self_score = Some 0.5, google_score = None,
       human_score = None, bias_self_minus_human = None\<rparr>]"

section \<open>Properties of the response parser\<close>

lemmas str_eval = cleaned_def fence_def fence_json_def str_strip_def is_space_def
  str_replace.simps str_find_def str_rfind_def slice_def

lemma replace_keeps_no_pair:
  "\<not> prefix [c, c] cs \<Longrightarrow> \<not> prefix [c, c] (str_replace [c, c, c] [] cs)"
proof (cases cs)
  case Nil
  then show ?thesis by (simp add: str_replace.simps)
next
  case (Cons a as)
  assume np: "\<not> prefix [c, c] cs"
  show ?thesis
  proof (cases as)
    case Nil
    with Cons show ?thesis by (simp add: str_replace.simps)
  next
    case (Cons b bs)
    with \<open>cs = a # as\<close> np show ?thesis
      by (subst str_replace.simps, subst str_replace.simps) auto
  qed
qed

lemma replace_removes_triples: "\<not> sublist [c, c, c] (str_replace [c, c, c] [] s)"
proof (induction "[c, c, c]" "[] :: string" s rule: str_replace.induct)
  case (1 s)
  show ?case
  proof (cases "s = []")
    case True
    then show ?thesis by (simp add: str_replace.simps)
  next
    case ne: False
    show ?thesis
    proof (cases "prefix [c, c, c] s")
      case True
      with ne 1 show ?thesis by (subst str_replace.simps) simp
    next
      case False
      from ne obtain a as where s: "s = a # as" by (cases s) auto
      have ih: "\<not> sublist [c, c, c] (str_replace [c, c, c] [] as)"
        using 1(2) ne False s by simp
      have eq: "str_replace [c, c, c] [] s = a # str_replace [c, c, c] [] as"
        using ne False s by (subst str_replace.simps) auto
      have "\<not> prefix [c, c, c] (a # str_replace [c, c, c] [] as)"
      proof
        assume "prefix [c, c, c] (a # str_replace [c, c, c] [] as)"
        then have "a = c" and "prefix [c, c] (str_replace [c, c, c] [] as)" by auto
        with replace_keeps_no_pair have "prefix [c, c] as" by blast
        with \<open>a = c\<close> s False show False by auto
      qed
      with ih eq show ?thesis by (simp add: sublist_Cons_right)
    qed
  qed
qed

lemma sublist_str_strip: "sublist (str_strip s) s"
proof -
  have "sublist (dropWhile is_space (rev (dropWhile is_space s))) (rev (dropWhile is_space s))"
    by simp
  then have "sublist (str_strip s) (dropWhile is_space s)"
    unfolding str_strip_def by (simp add: sublist_rev_left)
  moreover have "sublist (dropWhile is_space s) s" by simp
  ultimately show ?thesis by (rule sublist_order.order.trans)
qed

lemma sublist_slice: "sublist (slice s i j) s"
  unfolding slice_def by (rule sublist_order.order.trans[OF sublist_take sublist_drop])

lemma cleaned_no_fence: "\<not> sublist fence (cleaned text)"
proof
  assume "sublist fence (cleaned text)"
  then have "sublist fence (str_replace fence [] (str_replace fence_json [] (str_strip text)))"
    unfolding cleaned_def using sublist_str_strip sublist_order.order.trans by blast
  then show False
    using replace_removes_triples[of "CHR 0x60"] by (simp add: fence_def)
qed

lemma cleaned_no_fence_json: "\<not> sublist fence_json (cleaned text)"
proof
  assume "sublist fence_json (cleaned text)"
  moreover have "sublist fence fence_json"
    by (rule prefix_imp_sublist) (simp add: fence_def fence_json_def)
  ultimately have "sublist fence (cleaned text)"
    using sublist_order.order.trans by blast
  then show False using cleaned_no_fence by blast
qed

lemma decoder_sees_no_fence:
  assumes "\<And>s. \<not> sublist fence s \<Longrightarrow> l1 s = l2 s"
  shows "parse_json_response l1 text = parse_json_response l2 text"
proof -
  have a: "l1 (cleaned text) = l2 (cleaned text)"
    by (rule assms) (rule cleaned_no_fence)
  have "\<not> sublist fence (slice (cleaned text) i j)" for i j
    using cleaned_no_fence sublist_slice sublist_order.order.trans by blast
  then have b: "l1 (slice (cleaned text) i j) = l2 (slice (cleaned text) i j)" for i j
    by (rule assms)
  show ?thesis
    unfolding parse_json_response_def Let_def a b ..
qed

text \<open>
  Claim C2, at the input where it fails. The claim says that \<open>parse_json_response\<close> never
  raises and that invalid input yields the error sentinel. The code retries the decoder
  on the text between the first \<open>{\<close> and the last \<open>}\<close> inside the exception handler, with
  no \<open>try\<close> around the retry: whenever the cleaned text holds both braces and the decoder
  rejects both the whole text and the part between the braces, \<open>JSONDecodeError\<close> leaves
  the function instead of the sentinel.
\<close>

theorem parse_json_response_raises:
  assumes "loads (cleaned text) = Inl JSONDecodeError"
    and "str_find (cleaned text) ''{'' \<noteq> - 1"
    and "str_rfind (cleaned text) ''}'' \<noteq> - 1"
    and "loads (slice (cleaned text) (str_find (cleaned text) ''{'')
                  (str_rfind (cleaned text) ''}'' + 1)) = Inl JSONDecodeError"
  shows "parse_json_response loads text = Inl JSONDecodeError"
  using assms by (simp add: parse_json_response_def)

theorem parse_json_response_raises_witness:
  "cleaned ''Scores: {A: 0.9}'' = ''Scores: {A: 0.9}''
   \<and> slice (cleaned ''Scores: {A: 0.9}'') (str_find (cleaned ''Scores: {A: 0.9}'') ''{'')
         (str_rfind (cleaned ''Scores: {A: 0.9}'') ''}'' + 1) = ''{A: 0.9}''
   \<and> parse_json_response (loads_table []) ''Scores: {A: 0.9}'' = Inl JSONDecodeError"
proof -
  have c: "cleaned ''Scores: {A: 0.9}'' = ''Scores: {A: 0.9}''"
    by (simp add: str_eval)
  have "parse_json_response (loads_table []) ''Scores: {A: 0.9}'' = Inl JSONDecodeError"
    by (rule parse_json_response_raises) (simp_all add: c loads_table_def str_eval)
  then show ?thesis
    by (simp add: c) (simp add: str_eval)
qed

text \<open>
  Claim C10. The decoder is only ever applied to text from which every \<open>```json\<close> and
  every \<open>```\<close> has been deleted, wherever it stood: two decoders that agree on fence-free
  text give the same parse of every input. So a valid JSON object whose string value
  holds a fence marker comes back with the marker cut out of the value: for the input
  \<open>{"comparison": "A keeps ```json marks"}\<close> the returned record holds
  \<open>A keeps  marks\<close>, which is not the value the input encodes.
\<close>

theorem parse_json_response_strips_fences_in_values:
  \<open>(\<forall>text. \<not> sublist fence (cleaned text) \<and> \<not> sublist fence_json (cleaned text))
   \<and> (\<forall>l1 l2 text. (\<forall>s. \<not> sublist fence s \<longrightarrow> l1 s = l2 s)
          \<longrightarrow> parse_json_response l1 text = parse_json_response l2 text)
   \<and> (loads ''{"comparison": "A keeps ```json marks"}''
          = Inr (JObj [(''comparison'', JStr ''A keeps ```json marks'')])
        \<and> loads ''{"comparison": "A keeps  marks"}''
          = Inr (JObj [(''comparison'', JStr ''A keeps  marks'')])
        \<longrightarrow> parse_json_response loads ''{"comparison": "A keeps ```json marks"}''
              = Inr (JObj [(''comparison'', JStr ''A keeps  marks'')])
          \<and> parse_json_response loads ''{"comparison": "A keeps ```json marks"}''
              \<noteq> loads ''{"comparison": "A keeps ```json marks"}'')\<close>
proof (intro conjI allI impI)
  fix t
  show "\<not> sublist fence (cleaned t)" by (rule cleaned_no_fence)
  show "\<not> sublist fence_json (cleaned t)" by (rule cleaned_no_fence_json)
next
  fix l1 l2 :: "string \<Rightarrow> error + json" and t
  assume "\<forall>s. \<not> sublist fence s \<longrightarrow> l1 s = l2 s"
  then show "parse_json_response l1 t = parse_json_response l2 t"
    using decoder_sees_no_fence by blast
next
  have c: \<open>cleaned ''{"comparison": "A keeps ```json marks"}''
            = ''{"comparison": "A keeps  marks"}''\<close>
    by (simp add: str_eval)
  assume h: \<open>loads ''{"comparison": "A keeps ```json marks"}''
          = Inr (JObj [(''comparison'', JStr ''A keeps ```json marks'')])
        \<and> loads ''{"comparison": "A keeps  marks"}''
          = Inr (JObj [(''comparison'', JStr ''A keeps  marks'')])\<close>
  then show r: \<open>parse_json_response loads ''{"comparison": "A keeps ```json marks"}''
              = Inr (JObj [(''comparison'', JStr ''A keeps  marks'')])\<close>
    by (simp add: parse_json_response_def c)
  from h show \<open>parse_json_response loads ''{"comparison": "A keeps ```json marks"}''
              \<noteq> loads ''{"comparison": "A keeps ```json marks"}''\<close>
    unfolding r by simp
qed

theorem parse_json_response_strips_fences_in_values_witness:
  \<open>parse_json_response
      (loads_table
        [(''{"comparison": "A keeps ```json marks"}'',
            JObj [(''comparison'', JStr ''A keeps ```json marks'')]),
         (''{"comparison": "A keeps  marks"}'',
            JObj [(''comparison'', JStr ''A keeps  marks'')])])
      ''{"comparison": "A keeps ```json marks"}''
    = Inr (JObj [(''comparison'', JStr ''A keeps  marks'')])
   \<and> parse_json_response
      (loads_table
        [(''{"comparison": "A keeps  marks"}'',
            JObj [(''comparison'', JStr ''A keeps  marks'')])])
      ''{"comparison": "A keeps ```json marks"}''
    = Inr (JObj [(''comparison'', JStr ''A keeps  marks'')])\<close>
proof -
  let ?raw = \<open>''{"comparison": "A keeps ```json marks"}''\<close>
  let ?clean = \<open>''{"comparison": "A keeps  marks"}''\<close>
  let ?l1 = "loads_table [(?raw, JObj [(''comparison'', JStr ''A keeps ```json marks'')]),
                          (?clean, JObj [(''comparison'', JStr ''A keeps  marks'')])]"
  let ?l2 = "loads_table [(?clean, JObj [(''comparison'', JStr ''A keeps  marks'')])]"
  note inst = parse_json_response_strips_fences_in_values[of ?l1]
  have first: "parse_json_response ?l1 ?raw = Inr (JObj [(''comparison'', JStr ''A keeps  marks'')])"
    using inst by (simp add: loads_table_def)
  have \<open>sublist fence (''{"comparison": "A keeps '' @ fence @ ''json marks"}'')\<close>
    by (rule sublist_appendI)
  then have fenced: "sublist fence ?raw" by (simp add: fence_def)
  have agree: "\<forall>s. \<not> sublist fence s \<longrightarrow> ?l1 s = ?l2 s"
  proof (intro allI impI)
    fix s assume "\<not> sublist fence s"
    with fenced have "s \<noteq> ?raw" by blast
    then show "?l1 s = ?l2 s" by (simp add: loads_table_def)
  qed
  from inst have "\<forall>l1 l2 t. (\<forall>s. \<not> sublist fence s \<longrightarrow> l1 s = l2 s)
          \<longrightarrow> parse_json_response l1 t = parse_json_response l2 t"
    by (elim conjE)
  with agree have "parse_json_response ?l1 ?raw = parse_json_response ?l2 ?raw" by blast
  with first show ?thesis by simp
qed

section \<open>Properties of blind labelling\<close>

lemma shuffle_loop_perm:
  "i < length x \<Longrightarrow> mset (fst (shuffle_loop i g x)) = mset x"
proof (induction i arbitrary: g x)
  case 0
  then show ?case by simp
next
  case (Suc i)
  let ?j = "shd g mod (Suc i + 1)"
  let ?x' = "x[Suc i := x ! ?j, ?j := x ! Suc i]"
  have j: "?j < length x"
  proof -
    have "?j < Suc i + 1" by simp
    with Suc.prems show ?thesis by linarith
  qed
  have "mset ?x' = mset x"
    using mset_swap[OF j Suc.prems] .
  moreover have "i < length ?x'" using Suc.prems by simp
  ultimately have "mset (fst (shuffle_loop i (stl g) ?x')) = mset x"
    using Suc.IH[of ?x' "stl g"] by simp
  then show ?case by (simp add: randbelow_def)
qed

lemma shuffle_loop_length: "length (fst (shuffle_loop i g x)) = length x"
  by (induction i arbitrary: g x) (simp_all add: randbelow_def split: prod.splits)

lemma shuffle_loop_rng: "snd (shuffle_loop i g x) = sdrop i g"
  by (induction i arbitrary: g x) (simp_all add: randbelow_def split: prod.splits)

lemma shuffle_perm: "mset (fst (shuffle g x)) = mset x"
proof (cases x)
  case Nil
  then show ?thesis by (simp add: shuffle_def)
next
  case (Cons a as)
  then show ?thesis unfolding shuffle_def by (intro shuffle_loop_perm) simp
qed

lemma shuffle_length: "length (fst (shuffle g x)) = length x"
  by (simp add: shuffle_def shuffle_loop_length)

lemma list3: "length xs = 3 \<Longrightarrow> xs = [xs ! 0, xs ! 1, xs ! 2]"
  by (auto simp: list_eq_iff_nth_eq numeral_3_eq_3 numeral_2_eq_2 less_Suc_eq)


lemma entries_facts:
  fixes g gpt google human
  defines "src \<equiv> [(''GPT'', gpt), (''Google'', google), (''Human'', human)]"
  defines "entries \<equiv> fst (shuffle g src)"
  shows "entries = [entries ! 0, entries ! 1, entries ! 2]"
    and "mset entries = mset src"
    and "fst (prepare_blind_labels g gpt google human)
          = ([(''A'', snd (entries ! 0)), (''B'', snd (entries ! 1)), (''C'', snd (entries ! 2))],
             [(''A'', fst (entries ! 0)), (''B'', fst (entries ! 1)), (''C'', fst (entries ! 2))])"
proof -
  have "length entries = 3" by (simp add: entries_def src_def shuffle_length)
  then show "entries = [entries ! 0, entries ! 1, entries ! 2]" by (rule list3)
  show "mset entries = mset src" by (simp add: entries_def shuffle_perm)
  show "fst (prepare_blind_labels g gpt google human)
          = ([(''A'', snd (entries ! 0)), (''B'', snd (entries ! 1)), (''C'', snd (entries ! 2))],
             [(''A'', fst (entries ! 0)), (''B'', fst (entries ! 1)), (''C'', fst (entries ! 2))])"
    by (simp add: prepare_blind_labels_def entries_def src_def split: prod.splits)
qed

lemma mapping_values:
  "mset (map snd (snd (fst (prepare_blind_labels g gpt google human))))
     = {#''GPT'', ''Google'', ''Human''#}"
proof -
  let ?src = "[(''GPT'', gpt), (''Google'', google), (''Human'', human)]"
  let ?e = "fst (shuffle g ?src)"
  have "map snd (snd (fst (prepare_blind_labels g gpt google human)))
          = map fst [?e ! 0, ?e ! 1, ?e ! 2]"
    by (simp add: entries_facts(3))
  also have "\<dots> = map fst ?e" using entries_facts(1)[of g gpt google human] by simp
  finally have "mset (map snd (snd (fst (prepare_blind_labels g gpt google human))))
          = image_mset fst (mset ?e)" by simp
  also have "\<dots> = image_mset fst (mset ?src)" by (simp only: entries_facts(2))
  also have "\<dots> = {#''GPT'', ''Google'', ''Human''#}" by simp
  finally show ?thesis .
qed


lemma mset3_distinct:
  assumes "mset xs = {#a, b, c#}" and "distinct [a, b, c]"
  shows "distinct xs" and "set xs = {a, b, c}"
proof -
  from assms(1) have eq: "mset xs = mset [a, b, c]" by simp
  from mset_eq_imp_distinct_iff[OF eq] assms(2) show "distinct xs" by blast
  from mset_eq_setD[OF eq] show "set xs = {a, b, c}" by simp
qed

lemma bij3:
  assumes "distinct [k1, k2, k3]" and "distinct [v1, v2, v3]"
  shows "bij_betw (\<lambda>l. the (map_of [(k1, v1), (k2, v2), (k3, v3)] l)) {k1, k2, k3} {v1, v2, v3}"
  using assms unfolding bij_betw_def inj_on_def by auto


lemma provenance_entries:
  "\<exists>x y z. snd (fst (prepare_blind_labels g gpt google human)) = [(''A'', x), (''B'', y), (''C'', z)]
      \<and> mset [x, y, z] = {#''GPT'', ''Google'', ''Human''#}"
proof -
  let ?m = "snd (fst (prepare_blind_labels g gpt google human))"
  let ?e = "fst (shuffle g [(''GPT'', gpt), (''Google'', google), (''Human'', human)])"
  have m: "?m = [(''A'', fst (?e ! 0)), (''B'', fst (?e ! 1)), (''C'', fst (?e ! 2))]"
    by (simp add: entries_facts(3))
  have "mset (map snd ?m) = {#''GPT'', ''Google'', ''Human''#}" by (rule mapping_values)
  then have "mset [fst (?e ! 0), fst (?e ! 1), fst (?e ! 2)] = {#''GPT'', ''Google'', ''Human''#}"
    by (simp add: m)
  with m show ?thesis by blast
qed

lemma bijection_of_entries:
  assumes "m = [(''A'', x), (''B'', y), (''C'', z)]"
    and "mset [x, y, z] = {#''GPT'', ''Google'', ''Human''#}"
  shows "bij_betw (\<lambda>l. the (map_of m l)) {''A'', ''B'', ''C''} {''GPT'', ''Google'', ''Human''}"
proof -
  have dc: "distinct [''GPT'', ''Google'', ''Human'']" by simp
  have d: "distinct [x, y, z]" by (rule mset3_distinct(1)[OF assms(2) dc])
  have "set [x, y, z] = {''GPT'', ''Google'', ''Human''}" by (rule mset3_distinct(2)[OF assms(2) dc])
  then have s: "{x, y, z} = {''GPT'', ''Google'', ''Human''}" by simp
  have dk: "distinct [''A'', ''B'', ''C'']" by simp
  have "bij_betw (\<lambda>l. the (map_of m l)) {''A'', ''B'', ''C''} {x, y, z}"
    unfolding assms(1) by (rule bij3[OF dk d])
  then show ?thesis unfolding s .
qed

lemma label_text_is_category_text:
  fixes g gpt google human
  defines "src \<equiv> [(''GPT'', gpt), (''Google'', google), (''Human'', human)]"
  defines "r \<equiv> fst (prepare_blind_labels g gpt google human)"
  assumes l: "l \<in> {''A'', ''B'', ''C''}"
  shows "map_of (fst r) l = map_of src (the (map_of (snd r) l))"
proof -
  let ?e = "fst (shuffle g src)"
  have r: "r = ([(''A'', snd (?e ! 0)), (''B'', snd (?e ! 1)), (''C'', snd (?e ! 2))],
                [(''A'', fst (?e ! 0)), (''B'', fst (?e ! 1)), (''C'', fst (?e ! 2))])"
    unfolding r_def src_def by (rule entries_facts(3))
  have len: "length ?e = 3" by (simp add: shuffle_length src_def)
  have "set ?e = set src"
    using shuffle_perm[of g src] by (rule mset_eq_setD)
  then have mem: "?e ! k \<in> set src" if "k < 3" for k
    using that len nth_mem by metis
  have dsrc: "distinct (map fst src)" by (simp add: src_def)
  have look: "map_of src (fst (?e ! k)) = Some (snd (?e ! k))" if "k < 3" for k
    using map_of_is_SomeI[OF dsrc, of "fst (?e ! k)" "snd (?e ! k)"] mem[OF that] by simp
  from l consider "l = ''A''" | "l = ''B''" | "l = ''C''" by blast
  then show ?thesis
  proof cases
    case 1
    then show ?thesis using look[of 0] by (simp add: r)
  next
    case 2
    then show ?thesis using look[of 1] by (simp add: r)
  next
    case 3
    then show ?thesis using look[of 2] by (simp add: r)
  qed
qed

text \<open>
  Claim C1. For every generator state and every three texts, the provenance map returned
  by \<open>prepare_blind_labels\<close> has exactly the keys A, B, C, in this order, holds each of
  GPT, Google, Human exactly once as a value, and so is a bijection from the labels onto
  the categories.
\<close>

theorem prepare_blind_labels_bijection:
  "map fst (snd (fst (prepare_blind_labels g gpt google human))) = [''A'', ''B'', ''C'']
   \<and> mset (map snd (snd (fst (prepare_blind_labels g gpt google human))))
        = {#''GPT'', ''Google'', ''Human''#}
   \<and> bij_betw (\<lambda>l. the (map_of (snd (fst (prepare_blind_labels g gpt google human))) l))
        {''A'', ''B'', ''C''} {''GPT'', ''Google'', ''Human''}"
proof -
  let ?m = "snd (fst (prepare_blind_labels g gpt google human))"
  from provenance_entries[of g gpt google human] obtain x y z where
    m: "?m = [(''A'', x), (''B'', y), (''C'', z)]"
    and v: "mset [x, y, z] = {#''GPT'', ''Google'', ''Human''#}" by blast
  have keys: "map fst ?m = [''A'', ''B'', ''C'']" by (simp add: m)
  have vals: "mset (map snd ?m) = {#''GPT'', ''Google'', ''Human''#}" using v by (simp add: m)
  have "bij_betw (\<lambda>l. the (map_of ?m l)) {''A'', ''B'', ''C''} {''GPT'', ''Google'', ''Human''}"
    using m v by (rule bijection_of_entries)
  with keys vals show ?thesis by blast
qed

text \<open>
  Claim C6. Nothing in the result depends on the texts being different: for all texts,
  equal or not, the labels are the three distinct keys A, B, C, the provenance map is a
  bijection onto the three categories, and the text under each label is the text that was
  passed in the argument slot of the category the map gives for that label. The witness
  runs the function with the same text for Google and Human.
\<close>

theorem prepare_blind_labels_equal_texts:
  "map fst (fst (fst (prepare_blind_labels g gpt google human))) = [''A'', ''B'', ''C'']
   \<and> distinct [''A'', ''B'', ''C'']
   \<and> bij_betw (\<lambda>l. the (map_of (snd (fst (prepare_blind_labels g gpt google human))) l))
        {''A'', ''B'', ''C''} {''GPT'', ''Google'', ''Human''}
   \<and> (\<forall>l \<in> {''A'', ''B'', ''C''}.
         map_of (fst (fst (prepare_blind_labels g gpt google human))) l
         = map_of [(''GPT'', gpt), (''Google'', google), (''Human'', human)]
             (the (map_of (snd (fst (prepare_blind_labels g gpt google human))) l)))"
proof -
  have "map fst (fst (fst (prepare_blind_labels g gpt google human))) = [''A'', ''B'', ''C'']"
    by (simp add: entries_facts(3))
  moreover have "distinct [''A'', ''B'', ''C'']" by simp
  moreover have "bij_betw (\<lambda>l. the (map_of (snd (fst (prepare_blind_labels g gpt google human))) l))
        {''A'', ''B'', ''C''} {''GPT'', ''Google'', ''Human''}"
  proof -
    from provenance_entries[of g gpt google human] obtain x y z where
      "snd (fst (prepare_blind_labels g gpt google human)) = [(''A'', x), (''B'', y), (''C'', z)]"
      and "mset [x, y, z] = {#''GPT'', ''Google'', ''Human''#}" by blast
    then show ?thesis by (rule bijection_of_entries)
  qed
  moreover have "\<forall>l \<in> {''A'', ''B'', ''C''}.
         map_of (fst (fst (prepare_blind_labels g gpt google human))) l
         = map_of [(''GPT'', gpt), (''Google'', google), (''Human'', human)]
             (the (map_of (snd (fst (prepare_blind_labels g gpt google human))) l))"
    using label_text_is_category_text by blast
  ultimately show ?thesis by blast
qed

theorem prepare_blind_labels_equal_texts_witness:
  "fst (prepare_blind_labels (1 ## 1 ## sconst 0) ''kaunis'' ''upea'' ''upea'')
     = ([(''A'', ''kaunis''), (''B'', ''upea''), (''C'', ''upea'')],
        [(''A'', ''GPT''), (''B'', ''Human''), (''C'', ''Google'')])
   \<and> map_of (fst (fst (prepare_blind_labels (1 ## 1 ## sconst 0) ''kaunis'' ''upea'' ''upea''))) ''B''
     = map_of [(''GPT'', ''kaunis''), (''Google'', ''upea''), (''Human'', ''upea'')]
         (the (map_of (snd (fst (prepare_blind_labels (1 ## 1 ## sconst 0) ''kaunis'' ''upea'' ''upea''))) ''B''))"
proof -
  have "fst (prepare_blind_labels (1 ## 1 ## sconst 0) ''kaunis'' ''upea'' ''upea'')
     = ([(''A'', ''kaunis''), (''B'', ''upea''), (''C'', ''upea'')],
        [(''A'', ''GPT''), (''B'', ''Human''), (''C'', ''Google'')])"
    by (simp add: prepare_blind_labels_def shuffle_def randbelow_def numeral_2_eq_2)
  moreover have "''B'' \<in> {''A'', ''B'', ''C''}" by simp
  ultimately show ?thesis
    using prepare_blind_labels_equal_texts[of "1 ## 1 ## sconst 0" "''kaunis''" "''upea''" "''upea''"]
    by blast
qed

section \<open>Properties of reading scores back\<close>

lemma map_of_dict_set: "map_of (dict_set d k v) = (map_of d)(k \<mapsto> v)"
  by (induction d k v rule: dict_set.induct) auto

lemma keys_dict_set: "k \<in> set (map fst d) \<Longrightarrow> map fst (dict_set d k v) = map fst d"
  by (induction d k v rule: dict_set.induct) auto

lemma assign_scores_distinct_targets:
  assumes "\<forall>c \<in> set (map snd items). \<exists>t. c = JStr t \<and> t \<in> set (map fst scores)"
    and "distinct (map snd items)"
  shows "\<exists>s'. assign_scores sm scores items = Inr s'
            \<and> map fst s' = map fst scores
            \<and> (\<forall>l t. (l, JStr t) \<in> set items \<longrightarrow> map_of s' t = Some (dict_get sm l))
            \<and> (\<forall>k. JStr k \<notin> set (map snd items) \<longrightarrow> map_of s' k = map_of scores k)"
  using assms
proof (induction items arbitrary: scores)
  case Nil
  then show ?case by simp
next
  case (Cons p rest)
  obtain l c where p: "p = (l, c)" by (cases p)
  from Cons.prems(1) p obtain t where c: "c = JStr t" and t: "t \<in> set (map fst scores)"
    by auto
  let ?s1 = "dict_set scores t (dict_get sm l)"
  have k1: "map fst ?s1 = map fst scores" using t by (rule keys_dict_set)
  have "\<forall>c \<in> set (map snd rest). \<exists>t. c = JStr t \<and> t \<in> set (map fst ?s1)"
    using Cons.prems(1) k1 by simp
  moreover have "distinct (map snd rest)" using Cons.prems(2) by simp
  ultimately obtain s' where s': "assign_scores sm ?s1 rest = Inr s'"
      "map fst s' = map fst ?s1"
      "\<forall>l t. (l, JStr t) \<in> set rest \<longrightarrow> map_of s' t = Some (dict_get sm l)"
      "\<forall>k. JStr k \<notin> set (map snd rest) \<longrightarrow> map_of s' k = map_of ?s1 k"
    using Cons.IH[of ?s1] by blast
  have fresh: "JStr t \<notin> set (map snd rest)" using Cons.prems(2) p c by simp
  have run: "assign_scores sm scores (p # rest) = Inr s'"
    using s'(1) t by (simp add: p c)
  have head: "map_of s' t = Some (dict_get sm l)"
    using s'(4) fresh by (simp add: map_of_dict_set)
  have other: "map_of s' k = map_of scores k" if "JStr k \<notin> set (map snd (p # rest))" for k
  proof -
    from that have "k \<noteq> t" and "JStr k \<notin> set (map snd rest)" by (auto simp: p c)
    then show ?thesis using s'(4) by (simp add: map_of_dict_set)
  qed
  show ?case
  proof (intro exI conjI allI impI)
    show "assign_scores sm scores (p # rest) = Inr s'" by (rule run)
    show "map fst s' = map fst scores" using s'(2) k1 by simp
  next
    fix l' t' assume "(l', JStr t') \<in> set (p # rest)"
    then consider "l' = l" "t' = t" | "(l', JStr t') \<in> set rest" by (auto simp: p c)
    then show "map_of s' t' = Some (dict_get sm l')"
      using head s'(3) by cases auto
  next
    fix k assume "JStr k \<notin> set (map snd (p # rest))"
    then show "map_of s' k = map_of scores k" by (rule other)
  qed
qed

text \<open>
  Claim C3. Let the stored evaluation decode to a record \<open>e\<close> and the stored provenance
  map to a dict \<open>m\<close> with the keys A, B, C, each once, whose values are GPT, Google and
  Human, each once. Then \<open>parse_scores\<close> returns a dict with exactly the keys GPT,
  Google, Human, and under each category the score that the record holds for the label
  mapped to it: \<open>scores[m[l]] = e.get('translation_<l>_score')\<close> for l = A, B, C.
\<close>

theorem parse_scores_recovers_scores:
  assumes "loads evaluation_json = Inr (JObj e)"
    and "loads mapping_json = Inr (JObj m)"
    and "distinct (map fst m)"
    and "set (map fst m) = {''A'', ''B'', ''C''}"
    and "mset (map snd m) = {#JStr ''GPT'', JStr ''Google'', JStr ''Human''#}"
  shows "\<exists>scores. parse_scores loads evaluation_json mapping_json = Inr scores
           \<and> map fst scores = [''GPT'', ''Google'', ''Human'']
           \<and> (\<forall>l cat. map_of m l = Some (JStr cat) \<longrightarrow>
                 map_of scores cat
                 = map_of [(''A'', dict_get e ''translation_A_score''),
                           (''B'', dict_get e ''translation_B_score''),
                           (''C'', dict_get e ''translation_C_score'')] l)"
proof -
  let ?sm = "[(''A'', dict_get e ''translation_A_score''),
              (''B'', dict_get e ''translation_B_score''),
              (''C'', dict_get e ''translation_C_score'')]"
  have dc: "distinct [JStr ''GPT'', JStr ''Google'', JStr ''Human'']" by simp
  have dv: "distinct (map snd m)" by (rule mset3_distinct(1)[OF assms(5) dc])
  have sv: "set (map snd m) = {JStr ''GPT'', JStr ''Google'', JStr ''Human''}"
    by (rule mset3_distinct(2)[OF assms(5) dc])
  have tg: "\<forall>c \<in> set (map snd m). \<exists>t. c = JStr t \<and> t \<in> set (map fst initial_scores)"
    unfolding sv by (simp add: initial_scores_def)
  from assign_scores_distinct_targets[OF tg dv, of ?sm]
  obtain s' where s': "assign_scores ?sm initial_scores m = Inr s'"
      "map fst s' = map fst initial_scores"
      "\<forall>l t. (l, JStr t) \<in> set m \<longrightarrow> map_of s' t = Some (dict_get ?sm l)"
    by blast
  have run: "parse_scores loads evaluation_json mapping_json = Inr s'"
    using assms(1,2) s'(1)
    by (simp add: parse_scores_def and_then_def py_get_def py_items_def)
  have keys: "map fst s' = [''GPT'', ''Google'', ''Human'']"
    using s'(2) by (simp add: initial_scores_def)
  have rec: "map_of s' cat = map_of ?sm l" if "map_of m l = Some (JStr cat)" for l cat
  proof -
    from that have mem: "(l, JStr cat) \<in> set m" by (rule map_of_SomeD)
    then have "l \<in> set (map fst m)" by force
    then have l: "l \<in> {''A'', ''B'', ''C''}" using assms(4) by simp
    have "map_of s' cat = Some (dict_get ?sm l)" using s'(3) mem by blast
    also have "Some (dict_get ?sm l) = map_of ?sm l"
      using l by (auto simp: dict_get_def)
    finally show ?thesis .
  qed
  show ?thesis
  proof (intro exI conjI allI impI)
    show "parse_scores loads evaluation_json mapping_json = Inr s'" by (rule run)
    show "map fst s' = [''GPT'', ''Google'', ''Human'']" by (rule keys)
  next
    fix l cat assume "map_of m l = Some (JStr cat)"
    then show "map_of s' cat = map_of ?sm l" by (rule rec)
  qed
qed

theorem parse_scores_recovers_scores_witness:
  \<open>parse_scores
     (loads_table
        [(''{"translation_A_score": 0.9, "translation_B_score": 0.8, "translation_C_score": 0.7}'',
          JObj [(''translation_A_score'', JFloat 0.9), (''translation_B_score'', JFloat 0.8),
                (''translation_C_score'', JFloat 0.7)]),
         (''{"A": "Human", "B": "GPT", "C": "Google"}'',
          JObj [(''A'', JStr ''Human''), (''B'', JStr ''GPT''), (''C'', JStr ''Google'')])])
     ''{"translation_A_score": 0.9, "translation_B_score": 0.8, "translation_C_score": 0.7}''
     ''{"A": "Human", "B": "GPT", "C": "Google"}''
   = Inr [(''GPT'', JFloat 0.8), (''Google'', JFloat 0.7), (''Human'', JFloat 0.9)]\<close>
proof -
  let ?ej = \<open>''{"translation_A_score": 0.9, "translation_B_score": 0.8, "translation_C_score": 0.7}''\<close>
  let ?mj = \<open>''{"A": "Human", "B": "GPT", "C": "Google"}''\<close>
  let ?e = "[(''translation_A_score'', JFloat 0.9), (''translation_B_score'', JFloat 0.8),
             (''translation_C_score'', JFloat 0.7)]"
  let ?m = "[(''A'', JStr ''Human''), (''B'', JStr ''GPT''), (''C'', JStr ''Google'')]"
  let ?loads = "loads_table [(?ej, JObj ?e), (?mj, JObj ?m)]"
  have 1: "?loads ?ej = Inr (JObj ?e)" by (simp add: loads_table_def)
  have 2: "?loads ?mj = Inr (JObj ?m)" by (simp add: loads_table_def)
  have 3: "distinct (map fst ?m)" by simp
  have 4: "set (map fst ?m) = {''A'', ''B'', ''C''}" by simp
  have 5: "mset (map snd ?m) = {#JStr ''GPT'', JStr ''Google'', JStr ''Human''#}" by simp
  from parse_scores_recovers_scores[of ?loads ?ej ?e ?mj ?m, OF 1 2 3 4 5]
  show ?thesis
  proof (elim exE conjE)
    fix scores
    assume run: "parse_scores ?loads ?ej ?mj = Inr scores"
      and keys: "map fst scores = [''GPT'', ''Google'', ''Human'']"
      and rec: "\<forall>l cat. map_of ?m l = Some (JStr cat) \<longrightarrow>
         map_of scores cat
         = map_of [(''A'', dict_get ?e ''translation_A_score''),
                   (''B'', dict_get ?e ''translation_B_score''),
                   (''C'', dict_get ?e ''translation_C_score'')] l"
    from rec[rule_format, of "''A''" "''Human''"]
    have h: "map_of scores ''Human'' = Some (JFloat 0.9)" by (simp add: dict_get_def)
    from rec[rule_format, of "''B''" "''GPT''"]
    have g: "map_of scores ''GPT'' = Some (JFloat 0.8)" by (simp add: dict_get_def)
    from rec[rule_format, of "''C''" "''Google''"]
    have o: "map_of scores ''Google'' = Some (JFloat 0.7)" by (simp add: dict_get_def)
    from keys obtain a b c where sc: "scores = [(''GPT'', a), (''Google'', b), (''Human'', c)]"
      by (auto simp: map_eq_Cons_conv)
    from g o h have "scores = [(''GPT'', JFloat 0.8), (''Google'', JFloat 0.7), (''Human'', JFloat 0.9)]"
      unfolding sc by simp
    with run show ?thesis by simp
  qed
qed

section \<open>Properties of the store\<close>

lemma find_same_key_unique:
  assumes "distinct (map (\<lambda>s. (s_language s, s_original_text s)) rows)"
    and "r \<in> set rows" and "same_key l orig r"
  shows "find (same_key l orig) rows = Some r"
    and "filter (same_key l orig) rows = [r]"
  using assms
proof (induction rows)
  case Nil
  { case 1 then show ?case by simp }
  { case 2 then show ?case by simp }
next
  case (Cons a rows)
  { case 1
    show ?case
    proof (cases "same_key l orig a")
      case True
      with 1 have "a = r" by (force simp: same_key_def)
      with True show ?thesis by simp
    next
      case False
      with 1 Cons.IH(1) show ?thesis by auto
    qed }
  { case 2
    show ?case
    proof (cases "same_key l orig a")
      case True
      with 2 have ar: "a = r" by (force simp: same_key_def)
      have "\<not> same_key l orig x" if "x \<in> set rows" for x
      proof
        assume "same_key l orig x"
        with True have "(s_language x, s_original_text x) = (s_language a, s_original_text a)"
          by (simp add: same_key_def)
        with that have "(s_language a, s_original_text a)
                         \<in> set (map (\<lambda>s. (s_language s, s_original_text s)) rows)"
          by (metis (mono_tags, lifting) image_eqI list.set_map)
        with 2(1) show False by simp
      qed
      then have "filter (same_key l orig) rows = []" by (simp add: filter_empty_conv)
      with True ar show ?thesis by simp
    next
      case False
      with 2 Cons.IH(2) show ?thesis by auto
    qed }
qed

lemma insert_or_ignore_unique:
  "sentences_unique conn \<Longrightarrow> sentences_unique (insert_or_ignore_sentence conn l orig h g)"
  by (auto simp: sentences_unique_def insert_or_ignore_sentence_def Let_def list_ex_iff same_key_def)

lemma insert_or_ignore_has_key:
  "\<exists>r \<in> set (tbl_sentences (insert_or_ignore_sentence conn l orig h g)). same_key l orig r"
  by (auto simp: insert_or_ignore_sentence_def Let_def list_ex_iff same_key_def)

lemma insert_sentence_existing:
  assumes "sentences_unique conn" and "r \<in> set (tbl_sentences conn)" and "same_key l orig r"
  shows "insert_sentence conn l orig h g
           = Inr (s_id r, conn\<lparr>seq_sentences :=
                    new_rowid (seq_sentences conn) (map s_id (tbl_sentences conn))\<rparr>)"
proof -
  have "list_ex (same_key l orig) (tbl_sentences conn)"
    using assms(2,3) by (auto simp: list_ex_iff)
  then have same: "insert_or_ignore_sentence conn l orig h g
      = conn\<lparr>seq_sentences := new_rowid (seq_sentences conn) (map s_id (tbl_sentences conn))\<rparr>"
    by (simp add: insert_or_ignore_sentence_def Let_def)
  have "find (same_key l orig) (tbl_sentences conn) = Some r"
    using find_same_key_unique(1) assms unfolding sentences_unique_def by blast
  then show ?thesis by (simp add: insert_sentence_def same)
qed

lemma empty_db_unique: "sentences_unique empty_db"
  by (simp add: sentences_unique_def empty_db_def)

lemma insert_sentence_returns:
  assumes "sentences_unique conn"
  shows "\<exists>r. r \<in> set (tbl_sentences (insert_or_ignore_sentence conn l orig h g))
           \<and> same_key l orig r
           \<and> insert_sentence conn l orig h g
               = Inr (s_id r, insert_or_ignore_sentence conn l orig h g)"
proof -
  let ?c = "insert_or_ignore_sentence conn l orig h g"
  from insert_or_ignore_has_key[of conn l orig h g]
  obtain r where r: "r \<in> set (tbl_sentences ?c)" "same_key l orig r" by blast
  have u: "sentences_unique ?c" using assms by (rule insert_or_ignore_unique)
  have "find (same_key l orig) (tbl_sentences ?c) = Some r"
    using find_same_key_unique(1) u r unfolding sentences_unique_def by blast
  then have "insert_sentence conn l orig h g = Inr (s_id r, ?c)"
    by (simp add: insert_sentence_def)
  with r show ?thesis by blast
qed

text \<open>
  Claim C7. On a sentences table that satisfies its \<open>UNIQUE(language, original_text)\<close>
  constraint (the empty table of \<open>init_db\<close> does, and \<open>insert_sentence\<close> keeps it),
  \<open>insert_sentence\<close> returns an identity, and a second call with the same language and
  original text (whatever its two translations) returns the same identity. The second
  call changes nothing but the \<open>AUTOINCREMENT\<close> counter of the table, which moves on by
  the id that the ignored insert used up: the rows are those the first call left, exactly
  one of them holds that language and text, and the identity returned by both calls is
  the id of that row.
\<close>

theorem insert_sentence_idempotent:
  assumes "sentences_unique conn"
  shows "\<exists>i conn1 conn2 r.
           insert_sentence conn l orig h g = Inr (i, conn1)
         \<and> insert_sentence conn1 l orig h' g' = Inr (i, conn2)
         \<and> conn2 = conn1\<lparr>seq_sentences :=
                      new_rowid (seq_sentences conn1) (map s_id (tbl_sentences conn1))\<rparr>
         \<and> tbl_sentences conn2 = tbl_sentences conn1
         \<and> filter (same_key l orig) (tbl_sentences conn2) = [r]
         \<and> s_id r = i
         \<and> sentences_unique conn2"
proof -
  let ?c = "insert_or_ignore_sentence conn l orig h g"
  let ?d = "?c\<lparr>seq_sentences := new_rowid (seq_sentences ?c) (map s_id (tbl_sentences ?c))\<rparr>"
  from insert_sentence_returns[OF assms, of l orig h g]
  obtain r where r: "r \<in> set (tbl_sentences ?c)" "same_key l orig r"
      "insert_sentence conn l orig h g = Inr (s_id r, ?c)" by blast
  have u: "sentences_unique ?c" using assms by (rule insert_or_ignore_unique)
  have again: "insert_sentence ?c l orig h' g' = Inr (s_id r, ?d)"
    using u r(1,2) by (rule insert_sentence_existing)
  have rows: "tbl_sentences ?d = tbl_sentences ?c" by simp
  have "filter (same_key l orig) (tbl_sentences ?c) = [r]"
    using find_same_key_unique(2) u r(1,2) unfolding sentences_unique_def by blast
  then have one: "filter (same_key l orig) (tbl_sentences ?d) = [r]" by (simp only: rows)
  have u2: "sentences_unique ?d" using u by (simp add: sentences_unique_def)
  from r(3) again rows one u2 show ?thesis by blast
qed

theorem insert_sentence_idempotent_witness:
  "insert_sentence empty_db ''Finnish'' ''A fine day'' ''upea'' ''hieno''
     = Inr (1, empty_db\<lparr>tbl_sentences :=
         [\<lparr>s_id = 1, s_language = ''Finnish'', s_original_text = ''A fine day'',
           s_translation_human = ''upea'', s_translation_google = ''hieno''\<rparr>],
         seq_sentences := 1\<rparr>)
   \<and> insert_sentence
        (empty_db\<lparr>tbl_sentences :=
         [\<lparr>s_id = 1, s_language = ''Finnish'', s_original_text = ''A fine day'',
           s_translation_human = ''upea'', s_translation_google = ''hieno''\<rparr>],
         seq_sentences := 1\<rparr>)
        ''Finnish'' ''A fine day'' ''toinen'' ''kolmas''
     = Inr (1, empty_db\<lparr>tbl_sentences :=
         [\<lparr>s_id = 1, s_language = ''Finnish'', s_original_text = ''A fine day'',
           s_translation_human = ''upea'', s_translation_google = ''hieno''\<rparr>],
         seq_sentences := 2\<rparr>)"
proof -
  let ?c = "empty_db\<lparr>tbl_sentences :=
         [\<lparr>s_id = 1, s_language = ''Finnish'', s_original_text = ''A fine day'',
           s_translation_human = ''upea'', s_translation_google = ''hieno''\<rparr>],
         seq_sentences := 1\<rparr>"
  have first: "insert_sentence empty_db ''Finnish'' ''A fine day'' ''upea'' ''hieno'' = Inr (1, ?c)"
    by (simp add: insert_sentence_def insert_or_ignore_sentence_def empty_db_def new_rowid_def
        same_key_def)
  from insert_sentence_idempotent[OF empty_db_unique,
      of "''Finnish''" "''A fine day''" "''upea''" "''hieno''" "''toinen''" "''kolmas''"]
  have "insert_sentence ?c ''Finnish'' ''A fine day'' ''toinen'' ''kolmas''
          = Inr (1, ?c\<lparr>seq_sentences := 2\<rparr>)"
    unfolding first by (elim exE conjE) (simp add: new_rowid_def)
  with first show ?thesis by simp
qed

text \<open>
  Claim C9. When a row with the given language and original text is already stored,
  \<open>insert_sentence\<close> returns that row's identity, and the store it leaves differs from
  the one it found in the \<open>AUTOINCREMENT\<close> counter of the sentences table only: every
  table has the rows it had, and the one row with that language and text is still the
  row that was stored, with the human and Google translations it had. The translations
  passed in are dropped.
\<close>

theorem insert_sentence_first_writer_wins:
  assumes "sentences_unique conn"
    and "r \<in> set (tbl_sentences conn)"
    and "s_language r = l" and "s_original_text r = orig"
  shows "\<exists>conn'. insert_sentence conn l orig human' google' = Inr (s_id r, conn')
         \<and> conn' = conn\<lparr>seq_sentences :=
                      new_rowid (seq_sentences conn) (map s_id (tbl_sentences conn))\<rparr>
         \<and> tbl_sentences conn' = tbl_sentences conn
         \<and> tbl_runs conn' = tbl_runs conn
         \<and> tbl_translations conn' = tbl_translations conn
         \<and> tbl_evaluations conn' = tbl_evaluations conn
         \<and> filter (same_key l orig) (tbl_sentences conn') = [r]"
proof -
  let ?d = "conn\<lparr>seq_sentences := new_rowid (seq_sentences conn) (map s_id (tbl_sentences conn))\<rparr>"
  have key: "same_key l orig r" by (simp add: same_key_def assms(3,4))
  have call: "insert_sentence conn l orig human' google' = Inr (s_id r, ?d)"
    using assms(1,2) key by (rule insert_sentence_existing)
  have "filter (same_key l orig) (tbl_sentences conn) = [r]"
    using find_same_key_unique(2) assms(1,2) key unfolding sentences_unique_def by blast
  then have one: "filter (same_key l orig) (tbl_sentences ?d) = [r]" by simp
  from call one show ?thesis by simp
qed

theorem insert_sentence_first_writer_wins_witness:
  "insert_sentence
     (empty_db\<lparr>tbl_sentences :=
        [\<lparr>s_id = 1, s_language = ''Finnish'', s_original_text = ''A fine day'',
          s_translation_human = ''upea'', s_translation_google = ''hieno''\<rparr>],
        seq_sentences := 1\<rparr>)
     ''Finnish'' ''A fine day'' ''toinen'' ''kolmas''
   = Inr (1, empty_db\<lparr>tbl_sentences :=
        [\<lparr>s_id = 1, s_language = ''Finnish'', s_original_text = ''A fine day'',
          s_translation_human = ''upea'', s_translation_google = ''hieno''\<rparr>],
        seq_sentences := 2\<rparr>)"
proof -
  let ?r = "\<lparr>s_id = 1, s_language = ''Finnish'', s_original_text = ''A fine day'',
          s_translation_human = ''upea'', s_translation_google = ''hieno''\<rparr>"
  let ?c = "empty_db\<lparr>tbl_sentences := [?r], seq_sentences := 1\<rparr>"
  have 1: "sentences_unique ?c" by (simp add: sentences_unique_def)
  have 2: "?r \<in> set (tbl_sentences ?c)" by simp
  have 3: "s_language ?r = ''Finnish''" by simp
  have 4: "s_original_text ?r = ''A fine day''" by simp
  from insert_sentence_first_writer_wins[OF 1 2 3 4, of "''toinen''" "''kolmas''"]
  have "insert_sentence ?c ''Finnish'' ''A fine day'' ''toinen'' ''kolmas''
          = Inr (s_id ?r, ?c\<lparr>seq_sentences := 2\<rparr>)"
    by (elim exE conjE) (simp add: new_rowid_def)
  then show ?thesis by simp
qed

section \<open>Properties of aggregation\<close>

lemma map_of_accum_put: "map_of (accum_put accum key vals) = (map_of accum)(key \<mapsto> vals)"
  by (induction accum) auto

lemma keys_accum_put:
  "map fst (accum_put accum key vals)
     = (if key \<in> set (map fst accum) then map fst accum else map fst accum @ [key])"
  by (induction accum) force+

lemma distinct_accum_put:
  "distinct (map fst accum) \<Longrightarrow> distinct (map fst (accum_put accum key vals))"
  by (simp add: keys_accum_put)

lemma cat_list_with_list:
  assumes "list_for vals k = Inr ys"
  shows "cat_list (with_list vals k xs) cat = (if cat = k then xs else cat_list vals cat)"
  using assms by (auto simp: cat_list_def with_list_def list_for_def split: if_splits)

lemma cat_list_empty: "cat_list (lists_of [] key) cat = []"
  by (simp add: cat_list_def lists_of_def empty_lists_def list_for_def)

lemma append_score_effect:
  assumes "append_score ar accum key k v = Inr accum'" and "v \<noteq> JNull"
  shows "distinct (map fst accum) \<Longrightarrow> distinct (map fst accum')"
    and "cat_list (lists_of accum' key') cat
           = cat_list (lists_of accum key') cat
             @ (if key' = key then one_score ar cat (k, v) else [])"
proof -
  let ?vals = "lists_of accum key"
  from assms(1) obtain xs x where xs: "list_for ?vals k = Inr xs"
    and x: "to_float ar v = Inr x"
    and acc: "accum' = accum_put accum key (with_list ?vals k (xs @ [x]))"
    unfolding append_score_def lists_of_def Let_def
    by (auto simp: and_then_def split: sum.splits)
  show "distinct (map fst accum) \<Longrightarrow> distinct (map fst accum')"
    unfolding acc by (simp add: distinct_accum_put)
  have xs': "xs = cat_list ?vals k" using xs by (simp add: cat_list_def)
  show "cat_list (lists_of accum' key') cat
           = cat_list (lists_of accum key') cat
             @ (if key' = key then one_score ar cat (k, v) else [])"
  proof (cases "key' = key")
    case True
    have "lists_of accum' key = with_list ?vals k (xs @ [x])"
      unfolding acc by (simp add: lists_of_def map_of_accum_put)
    then have "cat_list (lists_of accum' key) cat
                 = (if cat = k then xs @ [x] else cat_list ?vals cat)"
      by (simp add: cat_list_with_list[OF xs])
    moreover have "one_score ar cat (k, v) = (if cat = k then [x] else [])"
      using assms(2) by (auto simp: one_score_def x)
    ultimately show ?thesis using True xs' by simp
  next
    case False
    then have "lists_of accum' key' = lists_of accum key'"
      unfolding acc by (simp add: lists_of_def map_of_accum_put)
    with False show ?thesis by simp
  qed
qed

lemma add_scores_effect:
  assumes "add_scores ar accum key scores = Inr accum'"
  shows "distinct (map fst accum) \<Longrightarrow> distinct (map fst accum')"
    and "cat_list (lists_of accum' key') cat
           = cat_list (lists_of accum key') cat
             @ (if key' = key then scores_of ar scores cat else [])"
  using assms
proof (induction scores arbitrary: accum)
  case Nil
  { case 1 then show ?case by simp }
  { case 2 then show ?case by (simp add: scores_of_def) }
next
  case (Cons kv scores)
  obtain k v where kv: "kv = (k, v)" by (cases kv)
  have so: "scores_of ar (kv # scores) cat = one_score ar cat (k, v) @ scores_of ar scores cat"
    by (simp add: scores_of_def kv)
  { case 1
    show ?case
    proof (cases "v = JNull")
      case True
      with 1(2) have "add_scores ar accum key scores = Inr accum'" by (simp add: kv)
      with 1(1) show ?thesis by (rule Cons.IH(1))
    next
      case False
      with 1(2) obtain a1 where a1: "append_score ar accum key k v = Inr a1"
        and rest: "add_scores ar a1 key scores = Inr accum'"
        by (auto simp: kv and_then_def split: sum.splits)
      from append_score_effect(1)[OF a1 False] 1(1) have "distinct (map fst a1)" by simp
      then show ?thesis using rest by (rule Cons.IH(1))
    qed }
  { case 2
    show ?case
    proof (cases "v = JNull")
      case True
      then have none: "one_score ar cat (k, v) = []" by (simp add: one_score_def)
      from True 2 have "add_scores ar accum key scores = Inr accum'" by (simp add: kv)
      then have "cat_list (lists_of accum' key') cat
              = cat_list (lists_of accum key') cat
                @ (if key' = key then scores_of ar scores cat else [])"
        by (rule Cons.IH(2))
      then show ?thesis unfolding so none by simp
    next
      case False
      with 2 obtain a1 where a1: "append_score ar accum key k v = Inr a1"
        and rest: "add_scores ar a1 key scores = Inr accum'"
        by (auto simp: kv and_then_def split: sum.splits)
      have "cat_list (lists_of accum' key') cat
              = cat_list (lists_of a1 key') cat
                @ (if key' = key then scores_of ar scores cat else [])"
        using rest by (rule Cons.IH(2))
      also have "cat_list (lists_of a1 key') cat
              = cat_list (lists_of accum key') cat
                @ (if key' = key then one_score ar cat (k, v) else [])"
        by (rule append_score_effect(2)[OF a1 False])
      finally show ?thesis unfolding so by simp
    qed }
qed

lemma accumulate_effect:
  assumes "accumulate ar loads accum fetched = Inr accum'"
  shows "distinct (map fst accum) \<Longrightarrow> distinct (map fst accum')"
    and "cat_list (lists_of accum' key) cat
           = cat_list (lists_of accum key) cat @ group_scores ar loads fetched key cat"
  using assms
proof (induction fetched arbitrary: accum)
  case Nil
  { case 1 then show ?case by simp }
  { case 2 then show ?case by (simp add: group_scores_def) }
next
  case (Cons r fetched)
  have gs: "group_scores ar loads (r # fetched) key cat
              = evaluation_scores ar loads key cat r @ group_scores ar loads fetched key cat"
    by (simp add: group_scores_def)
  { case 1
    from 1(2) obtain scores a1 where
      sc: "parse_scores loads (f_evaluation_json r) (f_mapping_json r) = Inr scores"
      and a1: "add_scores ar accum (row_key r) scores = Inr a1"
      and rest: "accumulate ar loads a1 fetched = Inr accum'"
      by (auto simp: and_then_def split: sum.splits)
    from add_scores_effect(1)[OF a1] 1(1) have "distinct (map fst a1)" by simp
    then show ?case using rest by (rule Cons.IH(1)) }
  { case 2
    from 2 obtain scores a1 where
      sc: "parse_scores loads (f_evaluation_json r) (f_mapping_json r) = Inr scores"
      and a1: "add_scores ar accum (row_key r) scores = Inr a1"
      and rest: "accumulate ar loads a1 fetched = Inr accum'"
      by (auto simp: and_then_def split: sum.splits)
    have es: "evaluation_scores ar loads key cat r
                = (if key = row_key r then scores_of ar scores cat else [])"
      by (auto simp: evaluation_scores_def sc)
    have "cat_list (lists_of accum' key) cat
            = cat_list (lists_of a1 key) cat @ group_scores ar loads fetched key cat"
      using rest by (rule Cons.IH(2))
    also have "cat_list (lists_of a1 key) cat
            = cat_list (lists_of accum key) cat
              @ (if key = row_key r then scores_of ar scores cat else [])"
      by (rule add_scores_effect(2)[OF a1])
    finally show ?case by (simp add: gs es) }
qed

lemma entry_lists:
  assumes "accumulate ar loads [] fetched = Inr accum" and "(key, vals) \<in> set accum"
  shows "vals_GPT vals = group_scores ar loads fetched key ''GPT''"
    and "vals_Google vals = group_scores ar loads fetched key ''Google''"
    and "vals_Human vals = group_scores ar loads fetched key ''Human''"
proof -
  have d: "distinct (map fst accum)" using accumulate_effect(1)[OF assms(1)] by simp
  then have "map_of accum key = Some vals" using assms(2) by simp
  then have l: "lists_of accum key = vals" by (simp add: lists_of_def)
  have c: "cat_list vals cat = group_scores ar loads fetched key cat" for cat
    using accumulate_effect(2)[OF assms(1), of key cat] by (simp add: l cat_list_empty)
  show "vals_GPT vals = group_scores ar loads fetched key ''GPT''"
    using c[of "''GPT''"] by (simp add: cat_list_def list_for_def)
  show "vals_Google vals = group_scores ar loads fetched key ''Google''"
    using c[of "''Google''"] by (simp add: cat_list_def list_for_def)
  show "vals_Human vals = group_scores ar loads fetched key ''Human''"
    using c[of "''Human''"] by (simp add: cat_list_def list_for_def)
qed

lemma group_has_entry:
  assumes "accumulate ar loads [] fetched = Inr accum"
    and "group_scores ar loads fetched key cat \<noteq> []"
  shows "key \<in> set (map fst accum)"
proof (rule ccontr)
  assume "key \<notin> set (map fst accum)"
  then have "map_of accum key = None" by (simp add: map_of_eq_None_iff)
  then have "cat_list (lists_of accum key) cat = []"
    by (simp add: lists_of_def cat_list_def empty_lists_def list_for_def)
  with accumulate_effect(2)[OF assms(1), of key cat] assms(2) show False
    by (simp add: cat_list_empty)
qed

lemma set_accum_put: "set (accum_put accum key vals) \<subseteq> insert (key, vals) (set accum)"
proof (induction accum)
  case Nil
  then show ?case by simp
next
  case (Cons a accum)
  obtain k' v' where a: "a = (k', v')" by (cases a)
  show ?case
  proof (cases "k' = key")
    case True
    then show ?thesis by (auto simp: a)
  next
    case False
    then have "set (accum_put (a # accum) key vals) = insert a (set (accum_put accum key vals))"
      by (simp add: a)
    with Cons.IH show ?thesis by auto
  qed
qed

lemma append_score_has:
  assumes "append_score ar accum key k v = Inr accum'"
    and "\<forall>e \<in> set accum. has_score (snd e)"
  shows "\<forall>e \<in> set accum'. has_score (snd e)"
proof -
  let ?vals = "lists_of accum key"
  from assms(1) obtain xs x where xs: "list_for ?vals k = Inr xs"
    and acc: "accum' = accum_put accum key (with_list ?vals k (xs @ [x]))"
    unfolding append_score_def lists_of_def Let_def
    by (auto simp: and_then_def split: sum.splits)
  from xs have k: "k \<in> {''GPT'', ''Google'', ''Human''}"
    by (auto simp: list_for_def split: if_splits)
  have "cat_list (with_list ?vals k (xs @ [x])) k \<noteq> []"
    by (simp add: cat_list_with_list[OF xs])
  with k have new: "has_score (with_list ?vals k (xs @ [x]))"
    unfolding has_score_def by blast
  show ?thesis
  proof
    fix e assume "e \<in> set accum'"
    then have "e = (key, with_list ?vals k (xs @ [x])) \<or> e \<in> set accum"
      unfolding acc using set_accum_put by fastforce
    then show "has_score (snd e)" using new assms(2) by auto
  qed
qed

lemma add_scores_has:
  assumes "add_scores ar accum key scores = Inr accum'"
    and "\<forall>e \<in> set accum. has_score (snd e)"
  shows "\<forall>e \<in> set accum'. has_score (snd e)"
  using assms
proof (induction scores arbitrary: accum)
  case Nil
  then show ?case by simp
next
  case (Cons kv scores)
  obtain k v where kv: "kv = (k, v)" by (cases kv)
  show ?case
  proof (cases "v = JNull")
    case True
    with Cons.prems(1) have "add_scores ar accum key scores = Inr accum'" by (simp add: kv)
    then show ?thesis using Cons.prems(2) by (rule Cons.IH)
  next
    case False
    with Cons.prems(1) obtain a1 where a1: "append_score ar accum key k v = Inr a1"
      and rest: "add_scores ar a1 key scores = Inr accum'"
      by (auto simp: kv and_then_def split: sum.splits)
    from a1 Cons.prems(2) have "\<forall>e \<in> set a1. has_score (snd e)" by (rule append_score_has)
    with rest show ?thesis by (rule Cons.IH)
  qed
qed

lemma accumulate_has:
  assumes "accumulate ar loads accum fetched = Inr accum'"
    and "\<forall>e \<in> set accum. has_score (snd e)"
  shows "\<forall>e \<in> set accum'. has_score (snd e)"
  using assms
proof (induction fetched arbitrary: accum)
  case Nil
  then show ?case by simp
next
  case (Cons r fetched)
  from Cons.prems(1) obtain scores a1 where
    a1: "add_scores ar accum (row_key r) scores = Inr a1"
    and rest: "accumulate ar loads a1 fetched = Inr accum'"
    by (auto simp: and_then_def split: sum.splits)
  from a1 Cons.prems(2) have "\<forall>e \<in> set a1. has_score (snd e)" by (rule add_scores_has)
  with rest show ?case by (rule Cons.IH)
qed

lemma entry_has_score:
  assumes "accumulate ar loads [] fetched = Inr accum" and "(key, vals) \<in> set accum"
  shows "group_scores ar loads fetched key ''GPT'' \<noteq> []
       \<or> group_scores ar loads fetched key ''Google'' \<noteq> []
       \<or> group_scores ar loads fetched key ''Human'' \<noteq> []"
proof -
  have "\<forall>e \<in> set accum. has_score (snd e)"
    using assms(1) by (rule accumulate_has) simp
  with assms(2) have "has_score vals" by force
  then have "vals_GPT vals \<noteq> [] \<or> vals_Google vals \<noteq> [] \<or> vals_Human vals \<noteq> []"
    by (auto simp: has_score_def cat_list_def list_for_def)
  then show ?thesis by (simp only: entry_lists[OF assms])
qed

lemma summary_row_bias:
  "bias_self_minus_human (summary_row ar (key, vals))
     = (if vals_GPT vals = [] \<or> vals_Human vals = [] then None
        else Some (float_sub ar (mean ar (vals_GPT vals)) (mean ar (vals_Human vals))))"
  by (cases key) (simp add: summary_row_def average_def mean_def Let_def)

lemma summary_row_group: "row_group (summary_row ar (key, vals)) = key"
  by (cases key) (simp add: summary_row_def row_group_def Let_def)

lemma table_scores:
  \<open>parse_scores table_loads
     ''{"translation_A_score": 0.5, "translation_B_score": 0.25, "translation_C_score": 0.75}''
     ''{"A": "GPT", "B": "Human", "C": "Google"}''
   = Inr [(''GPT'', JFloat 0.5), (''Google'', JFloat 0.75), (''Human'', JFloat 0.25)]\<close>
  \<open>parse_scores table_loads
     ''{"translation_A_score": 0.25, "translation_B_score": 1.0, "translation_C_score": 0.5}''
     ''{"A": "Human", "B": "GPT", "C": "Google"}''
   = Inr [(''GPT'', JFloat 1.0), (''Google'', JFloat 0.5), (''Human'', JFloat 0.25)]\<close>
  \<open>parse_scores table_loads ''{"translation_A_score": 0.5}''
     ''{"A": "GPT", "B": "Human", "C": "Google"}''
   = Inr [(''GPT'', JFloat 0.5), (''Google'', JNull), (''Human'', JNull)]\<close>
  by (simp_all add: parse_scores_def table_loads_def loads_table_def and_then_def py_get_def
      py_items_def dict_get_def initial_scores_def)

lemma table_run: "table_rows exact_arith table_loads table_fetched = Inr table_result"
  by (simp add: table_rows_def table_fetched_def table_scores and_then_def row_key_def
      append_score_def empty_lists_def list_for_def with_list_def exact_arith_def Let_def
      summary_rows_def summary_row_def average_def table_result_def)

lemma exact_arith_fields:
  "float_sum exact_arith xs = sum_list xs"
  "float_div exact_arith x n = x / of_nat n"
  "float_sub exact_arith x y = x - y"
  by (simp_all add: exact_arith_def)

lemma table_groups:
  "group_scores exact_arith table_loads table_fetched (1, ''openai'', ''gpt-4o'', ''Finnish'') ''GPT''
     = [0.5, 1.0]"
  "group_scores exact_arith table_loads table_fetched (1, ''openai'', ''gpt-4o'', ''Finnish'') ''Human''
     = [0.25, 0.25]"
  "group_scores exact_arith table_loads table_fetched (1, ''openai'', ''gpt-4o'', ''Polish'') ''GPT''
     = [0.5]"
  "group_scores exact_arith table_loads table_fetched (1, ''openai'', ''gpt-4o'', ''Polish'') ''Human''
     = []"
  by (simp_all add: group_scores_def evaluation_scores_def table_fetched_def table_scores
      row_key_def scores_of_def one_score_def exact_arith_def)

text \<open>
  Claim C8. For every entry of \<open>accum\<close>, the row written for it holds as bias the mean of
  the entry's GPT (self) scores minus the mean of its Human (reference) scores, and
  \<open>None\<close>, which is no number, when either list is empty. When the table is computed from
  the fetched evaluations, its groups are the keys \<open>(run_id, provider, model, language)\<close>
  under which the evaluations hold a score: the table has one row for each, and no other
  row. The bias of a row is the mean of the GPT scores of the evaluations of its group
  minus the mean of their Human scores, and \<open>None\<close> when the group has no GPT score or no
  Human score. Sum, division and difference are those of the floats.
\<close>

theorem bias_is_difference_of_means:
  "map bias_self_minus_human (summary_rows ar accum)
     = map (\<lambda>entry.
          if vals_GPT (snd entry) = [] \<or> vals_Human (snd entry) = [] then None
          else Some (float_sub ar (mean ar (vals_GPT (snd entry)))
                       (mean ar (vals_Human (snd entry))))) accum
   \<and> (table_rows ar loads fetched = Inr rows \<longrightarrow>
        distinct (map row_group rows)
      \<and> (\<forall>key cat. group_scores ar loads fetched key cat \<noteq> []
            \<longrightarrow> key \<in> set (map row_group rows))
      \<and> (\<forall>row \<in> set rows.
            (group_scores ar loads fetched (row_group row) ''GPT'' \<noteq> []
             \<or> group_scores ar loads fetched (row_group row) ''Google'' \<noteq> []
             \<or> group_scores ar loads fetched (row_group row) ''Human'' \<noteq> [])
          \<and> bias_self_minus_human row
              = (if group_scores ar loads fetched (row_group row) ''GPT'' = []
                    \<or> group_scores ar loads fetched (row_group row) ''Human'' = []
                 then None
                 else Some (float_sub ar
                        (mean ar (group_scores ar loads fetched (row_group row) ''GPT''))
                        (mean ar (group_scores ar loads fetched (row_group row) ''Human''))))))"
proof (intro conjI impI)
  have one: "bias_self_minus_human (summary_row ar entry)
     = (if vals_GPT (snd entry) = [] \<or> vals_Human (snd entry) = [] then None
        else Some (float_sub ar (mean ar (vals_GPT (snd entry)))
                     (mean ar (vals_Human (snd entry)))))" for entry
    using summary_row_bias[of ar "fst entry" "snd entry"] by simp
  show "map bias_self_minus_human (summary_rows ar accum)
     = map (\<lambda>entry.
          if vals_GPT (snd entry) = [] \<or> vals_Human (snd entry) = [] then None
          else Some (float_sub ar (mean ar (vals_GPT (snd entry)))
                       (mean ar (vals_Human (snd entry))))) accum"
    unfolding summary_rows_def by (simp add: one)
next
  assume run: "table_rows ar loads fetched = Inr rows"
  then obtain acc where acc: "accumulate ar loads [] fetched = Inr acc"
    and rows: "rows = summary_rows ar acc"
    by (auto simp: table_rows_def and_then_def split: sum.splits)
  have grp: "row_group (summary_row ar entry) = fst entry" for entry
    using summary_row_group[of ar "fst entry" "snd entry"] by simp
  have keys: "map row_group rows = map fst acc"
    unfolding rows summary_rows_def by (simp add: grp)
  show "distinct (map row_group rows)"
    unfolding keys using accumulate_effect(1)[OF acc] by simp
  show "\<forall>key cat. group_scores ar loads fetched key cat \<noteq> []
            \<longrightarrow> key \<in> set (map row_group rows)"
    unfolding keys using group_has_entry[OF acc] by blast
  show "\<forall>row \<in> set rows.
            (group_scores ar loads fetched (row_group row) ''GPT'' \<noteq> []
             \<or> group_scores ar loads fetched (row_group row) ''Google'' \<noteq> []
             \<or> group_scores ar loads fetched (row_group row) ''Human'' \<noteq> [])
          \<and> bias_self_minus_human row
              = (if group_scores ar loads fetched (row_group row) ''GPT'' = []
                    \<or> group_scores ar loads fetched (row_group row) ''Human'' = []
                 then None
                 else Some (float_sub ar
                        (mean ar (group_scores ar loads fetched (row_group row) ''GPT''))
                        (mean ar (group_scores ar loads fetched (row_group row) ''Human''))))"
  proof (intro ballI conjI)
    fix row assume "row \<in> set rows"
    then obtain key vals where mem: "(key, vals) \<in> set acc"
      and row: "row = summary_row ar (key, vals)"
      unfolding rows summary_rows_def by auto
    have g: "row_group row = key" unfolding row by (rule summary_row_group)
    note l = entry_lists[OF acc mem]
    show "group_scores ar loads fetched (row_group row) ''GPT'' \<noteq> []
             \<or> group_scores ar loads fetched (row_group row) ''Google'' \<noteq> []
             \<or> group_scores ar loads fetched (row_group row) ''Human'' \<noteq> []"
      unfolding g using acc mem by (rule entry_has_score)
    show "bias_self_minus_human row
              = (if group_scores ar loads fetched (row_group row) ''GPT'' = []
                    \<or> group_scores ar loads fetched (row_group row) ''Human'' = []
                 then None
                 else Some (float_sub ar
                        (mean ar (group_scores ar loads fetched (row_group row) ''GPT''))
                        (mean ar (group_scores ar loads fetched (row_group row) ''Human''))))"
      unfolding g unfolding row summary_row_bias l(1,3) by (rule refl)
  qed
qed

theorem bias_is_difference_of_means_witness:
  "table_rows exact_arith table_loads table_fetched = Inr table_result
   \<and> map row_group table_result
     = [(1, ''openai'', ''gpt-4o'', ''Finnish''), (1, ''openai'', ''gpt-4o'', ''Polish'')]
   \<and> map bias_self_minus_human table_result = [Some 0.5, None]"
proof -
  let ?F = "(1, ''openai'', ''gpt-4o'', ''Finnish'')"
  let ?P = "(1, ''openai'', ''gpt-4o'', ''Polish'')"
  have groups: "map row_group table_result = [?F, ?P]"
    by (simp add: table_result_def row_group_def)
  obtain r1 r2 where rs: "table_result = [r1, r2]" by (simp add: table_result_def)
  from groups have g: "row_group r1 = ?F" "row_group r2 = ?P" unfolding rs by simp_all
  from bias_is_difference_of_means[of exact_arith "[]" table_loads table_fetched table_result]
    table_run
  have all: "\<forall>row \<in> set table_result.
            (group_scores exact_arith table_loads table_fetched (row_group row) ''GPT'' \<noteq> []
             \<or> group_scores exact_arith table_loads table_fetched (row_group row) ''Google'' \<noteq> []
             \<or> group_scores exact_arith table_loads table_fetched (row_group row) ''Human'' \<noteq> [])
          \<and> bias_self_minus_human row
              = (if group_scores exact_arith table_loads table_fetched (row_group row) ''GPT'' = []
                    \<or> group_scores exact_arith table_loads table_fetched (row_group row) ''Human'' = []
                 then None
                 else Some (float_sub exact_arith
                        (mean exact_arith
                           (group_scores exact_arith table_loads table_fetched (row_group row) ''GPT''))
                        (mean exact_arith
                           (group_scores exact_arith table_loads table_fetched (row_group row) ''Human''))))"
    by blast
  from all have "bias_self_minus_human r1 = Some 0.5"
    unfolding rs by (simp add: g table_groups mean_def exact_arith_fields)
  moreover from all have "bias_self_minus_human r2 = None"
    unfolding rs by (simp add: g table_groups)
  ultimately have "map bias_self_minus_human table_result = [Some 0.5, None]"
    unfolding rs by simp
  with table_run groups show ?thesis by simp
qed

section \<open>Properties of the orchestrator\<close>

lemma shuffle_loop_map:
  "i < length x \<Longrightarrow> map f (fst (shuffle_loop i g x)) = fst (shuffle_loop i g (map f x))"
proof (induction i arbitrary: g x)
  case 0
  then show ?case by simp
next
  case (Suc i)
  let ?j = "shd g mod (Suc i + 1)"
  have j: "?j < length x"
  proof -
    have "?j < Suc i + 1" by simp
    with Suc.prems show ?thesis by linarith
  qed
  let ?x' = "x[Suc i := x ! ?j, ?j := x ! Suc i]"
  have "map f ?x' = (map f x)[Suc i := map f x ! ?j, ?j := map f x ! Suc i]"
    using j Suc.prems by (simp add: map_update)
  moreover have "i < length ?x'" using Suc.prems by simp
  ultimately show ?case
    using Suc.IH[of ?x' "stl g"] by (simp add: randbelow_def)
qed

lemma shuffle_map: "map f (fst (shuffle g x)) = fst (shuffle g (map f x))"
proof (cases x)
  case Nil
  then show ?thesis by (simp add: shuffle_def)
next
  case (Cons a as)
  then have "length x - 1 < length x" by simp
  then show ?thesis unfolding shuffle_def by (simp add: shuffle_loop_map)
qed

lemma sdrop_two: "sdrop 2 g = stl (stl g)"
  by (simp add: numeral_2_eq_2)

lemma shuffle_rng: "snd (shuffle g x) = sdrop (length x - 1) g"
  by (simp add: shuffle_def shuffle_loop_rng)

lemma prepare_blind_labels_rng: "snd (prepare_blind_labels g a b c) = sdrop 2 g"
proof -
  have "snd (shuffle g [(''GPT'', a), (''Google'', b), (''Human'', c)]) = sdrop 2 g"
    by (simp add: shuffle_rng sdrop_two)
  then show ?thesis
    by (auto simp: prepare_blind_labels_def split: prod.splits)
qed

lemma provenance_text_independent:
  "snd (fst (prepare_blind_labels g a b c)) = provenance_at g"
proof -
  have cats: "map fst (fst (shuffle g [(''GPT'', t), (''Google'', u), (''Human'', v)]))
          = fst (shuffle g [''GPT'', ''Google'', ''Human''])" for t u v :: string
    by (simp add: shuffle_map)
  have m: "snd (fst (prepare_blind_labels g t u v))
          = [(''A'', fst (shuffle g [''GPT'', ''Google'', ''Human'']) ! 0),
             (''B'', fst (shuffle g [''GPT'', ''Google'', ''Human'']) ! 1),
             (''C'', fst (shuffle g [''GPT'', ''Google'', ''Human'']) ! 2)]" for t u v
  proof -
    let ?e = "fst (shuffle g [(''GPT'', t), (''Google'', u), (''Human'', v)])"
    have len: "length ?e = 3" by (simp add: shuffle_length)
    have "fst (?e ! k) = map fst ?e ! k" if "k < 3" for k
      using that len by simp
    then have "fst (?e ! k) = fst (shuffle g [''GPT'', ''Google'', ''Human'']) ! k" if "k < 3" for k
      using that cats by simp
    then show ?thesis by (simp add: entries_facts(3))
  qed
  show ?thesis unfolding provenance_at_def by (simp only: m)
qed

lemma insert_translation_tables:
  "tbl_sentences (insert_translation conn r s t) = tbl_sentences conn"
  "tbl_runs (insert_translation conn r s t) = tbl_runs conn"
  "seq_runs (insert_translation conn r s t) = seq_runs conn"
  "tbl_evaluations (insert_translation conn r s t) = tbl_evaluations conn"
  "map translation_key (tbl_translations (insert_translation conn r s t))
     = map translation_key (tbl_translations conn) @ [(r, s)]"
  by (simp_all add: insert_translation_def Let_def translation_key_def)

lemma insert_evaluation_tables:
  "tbl_sentences (insert_evaluation conn r s ej mj) = tbl_sentences conn"
  "tbl_runs (insert_evaluation conn r s ej mj) = tbl_runs conn"
  "seq_runs (insert_evaluation conn r s ej mj) = seq_runs conn"
  "tbl_translations (insert_evaluation conn r s ej mj) = tbl_translations conn"
  "map evaluation_entry (tbl_evaluations (insert_evaluation conn r s ej mj))
     = map evaluation_entry (tbl_evaluations conn) @ [(r, s, mj)]"
  by (simp_all add: insert_evaluation_def Let_def evaluation_entry_def)

lemma and_then_Inr: "and_then r f = Inr y \<Longrightarrow> \<exists>v. r = Inr v \<and> f v = Inr y"
  by (cases r) (simp_all add: and_then_def)

lemma process_row_effect:
  assumes "process_row env cfg m run_id lang (conn, g, w) row = Inr (conn', g', w')"
  shows "tbl_sentences conn' = tbl_sentences conn"
    and "tbl_runs conn' = tbl_runs conn"
    and "seq_runs conn' = seq_runs conn"
    and "map translation_key (tbl_translations conn')
           = map translation_key (tbl_translations conn) @ [(run_id, s_id row)]"
    and "map evaluation_entry (tbl_evaluations conn')
           = map evaluation_entry (tbl_evaluations conn)
             @ [(run_id, s_id row, json_dumps env (mapping_json_obj (provenance_at g)))]"
    and "g' = sdrop 2 g"
proof -
  let ?prompt = "''Translate the following sentence from English to ''
                   @ capitalize env lang @ '':\<newline>\<newline>'' @ s_original_text row"
  from assms obtain tr w1 where
    tr: "get_translation (env_gateway env) w (cfg_provider m) (cfg_name m)
           (cfg_translation_system cfg) ?prompt = Inr (tr, w1)"
    and rest1: "(case prepare_blind_labels g tr (s_translation_google row) (s_translation_human row) of
          ((labels, mapping), rng1) \<Rightarrow>
            and_then (dict_lookup labels ''A'') (\<lambda>a.
            and_then (dict_lookup labels ''B'') (\<lambda>b.
            and_then (dict_lookup labels ''C'') (\<lambda>c.
            and_then
              (blind_evaluate (env_gateway env) (json_loads env) w1 (cfg_provider m)
                 (cfg_name m) (cfg_evaluation_system cfg) (s_original_text row) a b c)
              (\<lambda>(evaluation, w2).
                 let conn1 = insert_translation conn run_id (s_id row) tr;
                     conn2 = insert_evaluation conn1 run_id (s_id row)
                               (json_dumps env evaluation)
                               (json_dumps env (mapping_json_obj mapping))
                 in Inr (conn2, rng1, w2)))))) = Inr (conn', g', w')"
    unfolding process_row_def Let_def by (auto dest!: and_then_Inr)
  obtain labels mapping rng1 where
    pbl: "prepare_blind_labels g tr (s_translation_google row) (s_translation_human row)
            = ((labels, mapping), rng1)"
    by (metis prod.exhaust)
  have mapping: "mapping = provenance_at g"
    using provenance_text_independent[of g tr "s_translation_google row" "s_translation_human row"]
    by (simp add: pbl)
  have rng1: "rng1 = sdrop 2 g"
    using prepare_blind_labels_rng[of g tr "s_translation_google row" "s_translation_human row"]
    by (simp add: pbl)
  from rest1 obtain ev w2 where
    fin: "conn' = insert_evaluation (insert_translation conn run_id (s_id row) tr) run_id (s_id row)
                   (json_dumps env ev) (json_dumps env (mapping_json_obj mapping))"
      "g' = rng1"
    unfolding pbl by (auto simp: Let_def dest!: and_then_Inr)
  show "tbl_sentences conn' = tbl_sentences conn"
    and "tbl_runs conn' = tbl_runs conn"
    and "seq_runs conn' = seq_runs conn"
    and "map translation_key (tbl_translations conn')
           = map translation_key (tbl_translations conn) @ [(run_id, s_id row)]"
    and "map evaluation_entry (tbl_evaluations conn')
           = map evaluation_entry (tbl_evaluations conn)
             @ [(run_id, s_id row, json_dumps env (mapping_json_obj (provenance_at g)))]"
    and "g' = sdrop 2 g"
    by (simp_all add: fin insert_translation_tables insert_evaluation_tables mapping rng1)
qed

lemma sdrop_step: "sdrop (2 * n) (sdrop 2 g) = sdrop (2 * Suc n) g"
  by (simp only: sdrop_add mult_Suc_right)

lemma sdrop_plus: "sdrop (2 * n) (sdrop (2 * m) g) = sdrop (2 * (m + n)) g"
  by (simp only: sdrop_add distrib_left)

lemma run_entries_append:
  "run_entries env i g (xs @ ys)
     = run_entries env i g xs @ run_entries env i (sdrop (2 * length xs) g) ys"
proof (induction xs arbitrary: g)
  case Nil
  then show ?case by simp
next
  case (Cons x xs)
  show ?case
    by (simp only: append_Cons run_entries.simps Cons.IH sdrop_step length_Cons)
qed

lemma run_rows_effect:
  assumes "run_rows env cfg m i lang (conn, g, w) rows = Inr (conn', g', w')"
  shows "tbl_sentences conn' = tbl_sentences conn"
    and "tbl_runs conn' = tbl_runs conn"
    and "seq_runs conn' = seq_runs conn"
    and "map translation_key (tbl_translations conn')
           = map translation_key (tbl_translations conn) @ map (\<lambda>row. (i, s_id row)) rows"
    and "map evaluation_entry (tbl_evaluations conn')
           = map evaluation_entry (tbl_evaluations conn) @ run_entries env i g rows"
    and "g' = sdrop (2 * length rows) g"
  using assms
proof (induction rows arbitrary: conn g w)
  case Nil
  { case 1 then show ?case by simp }
  { case 2 then show ?case by simp }
  { case 3 then show ?case by simp }
  { case 4 then show ?case by simp }
  { case 5 then show ?case by simp }
  { case 6 then show ?case by simp }
next
  case (Cons row rows)
  have step: "\<exists>c1 g1 w1. process_row env cfg m i lang (conn, g, w) row = Inr (c1, g1, w1)
                 \<and> run_rows env cfg m i lang (c1, g1, w1) rows = Inr (conn', g', w')"
    if "run_rows env cfg m i lang (conn, g, w) (row # rows) = Inr (conn', g', w')"
    for conn g w
    using that by (auto dest!: and_then_Inr)
  { case 1
    from step[OF 1] obtain c1 g1 w1 where
      a: "process_row env cfg m i lang (conn, g, w) row = Inr (c1, g1, w1)"
      and b: "run_rows env cfg m i lang (c1, g1, w1) rows = Inr (conn', g', w')" by blast
    show ?case using Cons.IH(1)[OF b] process_row_effect(1)[OF a] by simp }
  { case 2
    from step[OF 2] obtain c1 g1 w1 where
      a: "process_row env cfg m i lang (conn, g, w) row = Inr (c1, g1, w1)"
      and b: "run_rows env cfg m i lang (c1, g1, w1) rows = Inr (conn', g', w')" by blast
    show ?case using Cons.IH(2)[OF b] process_row_effect(2)[OF a] by simp }
  { case 3
    from step[OF 3] obtain c1 g1 w1 where
      a: "process_row env cfg m i lang (conn, g, w) row = Inr (c1, g1, w1)"
      and b: "run_rows env cfg m i lang (c1, g1, w1) rows = Inr (conn', g', w')" by blast
    show ?case using Cons.IH(3)[OF b] process_row_effect(3)[OF a] by simp }
  { case 4
    from step[OF 4] obtain c1 g1 w1 where
      a: "process_row env cfg m i lang (conn, g, w) row = Inr (c1, g1, w1)"
      and b: "run_rows env cfg m i lang (c1, g1, w1) rows = Inr (conn', g', w')" by blast
    show ?case using Cons.IH(4)[OF b] process_row_effect(4)[OF a] by simp }
  { case 5
    from step[OF 5] obtain c1 g1 w1 where
      a: "process_row env cfg m i lang (conn, g, w) row = Inr (c1, g1, w1)"
      and b: "run_rows env cfg m i lang (c1, g1, w1) rows = Inr (conn', g', w')" by blast
    show ?case
      using Cons.IH(5)[OF b] process_row_effect(5)[OF a] process_row_effect(6)[OF a] by simp }
  { case 6
    from step[OF 6] obtain c1 g1 w1 where
      a: "process_row env cfg m i lang (conn, g, w) row = Inr (c1, g1, w1)"
      and b: "run_rows env cfg m i lang (c1, g1, w1) rows = Inr (conn', g', w')" by blast
    show ?case
      unfolding Cons.IH(6)[OF b] process_row_effect(6)[OF a]
      by (simp only: sdrop_step length_Cons) }
qed

lemma select_sentences_cong:
  "tbl_sentences c1 = tbl_sentences c2 \<Longrightarrow> select_sentences c1 l = select_sentences c2 l"
  by (simp add: select_sentences_def)

lemma visited_cong:
  "tbl_sentences c1 = tbl_sentences c2 \<Longrightarrow> visited env c1 langs = visited env c2 langs"
  by (simp add: visited_def select_sentences_def)

lemma run_languages_effect:
  assumes "run_languages env cfg m i (conn, g, w) langs = Inr (conn', g', w')"
  shows "tbl_sentences conn' = tbl_sentences conn
       \<and> tbl_runs conn' = tbl_runs conn
       \<and> seq_runs conn' = seq_runs conn
       \<and> map translation_key (tbl_translations conn')
           = map translation_key (tbl_translations conn)
             @ map (\<lambda>row. (i, s_id row)) (visited env conn langs)
       \<and> map evaluation_entry (tbl_evaluations conn')
           = map evaluation_entry (tbl_evaluations conn) @ run_entries env i g (visited env conn langs)
       \<and> g' = sdrop (2 * length (visited env conn langs)) g"
  using assms
proof (induction langs arbitrary: conn g w)
  case Nil
  then show ?case by (simp add: visited_def)
next
  case (Cons lang langs)
  let ?rows = "select_sentences conn (capitalize env lang)"
  from Cons.prems obtain c1 g1 w1 where
    a: "run_rows env cfg m i lang (conn, g, w) ?rows = Inr (c1, g1, w1)"
    and b: "run_languages env cfg m i (c1, g1, w1) langs = Inr (conn', g', w')"
    by (auto dest!: and_then_Inr)
  note ra = run_rows_effect[OF a]
  have v1: "visited env c1 langs = visited env conn langs" using ra(1) by (rule visited_cong)
  have v: "visited env conn (lang # langs) = ?rows @ visited env conn langs" by (simp add: visited_def)
  have g2: "sdrop (2 * length (visited env conn langs)) (sdrop (2 * length ?rows) g)
              = sdrop (2 * length (visited env conn (lang # langs))) g"
    unfolding v by (simp only: sdrop_plus length_append)
  from Cons.IH[OF b] have ih:
    "tbl_sentences conn' = tbl_sentences c1" "tbl_runs conn' = tbl_runs c1"
    "seq_runs conn' = seq_runs c1"
    "map translation_key (tbl_translations conn')
       = map translation_key (tbl_translations c1) @ map (\<lambda>row. (i, s_id row)) (visited env conn langs)"
    "map evaluation_entry (tbl_evaluations conn')
       = map evaluation_entry (tbl_evaluations c1) @ run_entries env i g1 (visited env conn langs)"
    "g' = sdrop (2 * length (visited env conn langs)) g1"
    unfolding v1 by blast+
  have e: "run_entries env i g (visited env conn (lang # langs))
             = run_entries env i g ?rows @ run_entries env i g1 (visited env conn langs)"
    unfolding v ra(6) by (rule run_entries_append)
  show ?case
  proof (intro conjI)
    show "tbl_sentences conn' = tbl_sentences conn" using ih(1) ra(1) by simp
    show "tbl_runs conn' = tbl_runs conn" using ih(2) ra(2) by simp
    show "seq_runs conn' = seq_runs conn" using ih(3) ra(3) by simp
    show "map translation_key (tbl_translations conn')
           = map translation_key (tbl_translations conn)
             @ map (\<lambda>row. (i, s_id row)) (visited env conn (lang # langs))"
      unfolding ih(4) ra(4) v by simp
    show "map evaluation_entry (tbl_evaluations conn')
           = map evaluation_entry (tbl_evaluations conn)
             @ run_entries env i g (visited env conn (lang # langs))"
      unfolding ih(5) ra(5) e by simp
    show "g' = sdrop (2 * length (visited env conn (lang # langs))) g"
      unfolding ih(6) ra(6) by (rule g2)
  qed
qed

lemma foldr_max_ge: "seq \<le> foldr max ids (seq :: int)"
  by (induction ids) auto

lemma foldr_max_mem: "i \<in> set ids \<Longrightarrow> i \<le> foldr max ids (seq :: int)"
  by (induction ids) auto

lemma foldr_max_bounded: "\<forall>i \<in> set ids. i \<le> seq \<Longrightarrow> foldr max ids (seq :: int) = seq"
  by (induction ids) auto

lemma new_rowid_fresh: "new_rowid seq ids \<notin> set ids"
  using foldr_max_mem[of "new_rowid seq ids" ids seq] by (auto simp: new_rowid_def)

lemma new_rowid_next:
  "new_rowid (new_rowid seq ids) (ids @ [new_rowid seq ids]) = new_rowid seq ids + 1"
proof -
  let ?n = "new_rowid seq ids"
  have "i \<le> ?n" if "i \<in> set ids" for i
    using foldr_max_mem[OF that, of seq] by (simp add: new_rowid_def)
  then have "\<forall>i \<in> set (ids @ [?n]). i \<le> ?n" by auto
  then have "foldr max (ids @ [?n]) ?n = ?n" by (rule foldr_max_bounded)
  then show ?thesis by (simp add: new_rowid_def[of ?n])
qed

lemma run_ids_Suc:
  "run_ids conn (Suc n)
     = new_rowid (seq_runs conn) (map r_id (tbl_runs conn))
       # map (\<lambda>j. new_rowid (seq_runs conn) (map r_id (tbl_runs conn)) + 1 + int j) [0..<n]"
proof -
  have "[0..<Suc n] = 0 # map Suc [0..<n]" by (simp add: upt_conv_Cons map_Suc_upt del: upt_Suc)
  then show ?thesis by (simp add: run_ids_def comp_def add.assoc del: upt_Suc)
qed

lemma insert_run_tables:
  assumes "insert_run conn p mo seed h ts = (i, conn1)"
  shows "i = new_rowid (seq_runs conn) (map r_id (tbl_runs conn))"
    and "tbl_sentences conn1 = tbl_sentences conn"
    and "tbl_translations conn1 = tbl_translations conn"
    and "tbl_evaluations conn1 = tbl_evaluations conn"
    and "map r_id (tbl_runs conn1) = map r_id (tbl_runs conn) @ [i]"
    and "map r_seed (tbl_runs conn1) = map r_seed (tbl_runs conn) @ [seed]"
    and "seq_runs conn1 = i"
  using assms by (auto simp: insert_run_def Let_def)

lemma run_models_effect:
  assumes "run_models env cfg seed h (conn, w) ms = Inr (conn', w')"
  shows "tbl_sentences conn' = tbl_sentences conn
       \<and> map r_id (tbl_runs conn') = map r_id (tbl_runs conn) @ run_ids conn (length ms)
       \<and> map r_seed (tbl_runs conn') = map r_seed (tbl_runs conn) @ replicate (length ms) seed
       \<and> map translation_key (tbl_translations conn')
           = map translation_key (tbl_translations conn)
             @ concat (map (\<lambda>i. map (\<lambda>row. (i, s_id row)) (visited env conn (cfg_languages cfg)))
                         (run_ids conn (length ms)))
       \<and> map evaluation_entry (tbl_evaluations conn')
           = map evaluation_entry (tbl_evaluations conn)
             @ concat (map (\<lambda>i. run_entries env i (Random env (seed + i))
                                   (visited env conn (cfg_languages cfg)))
                         (run_ids conn (length ms)))"
  using assms
proof (induction ms arbitrary: conn w)
  case Nil
  then show ?case by (simp add: run_ids_def)
next
  case (Cons m ms)
  let ?V = "visited env conn (cfg_languages cfg)"
  obtain i conn1 where
    ir: "insert_run conn (cfg_provider m) (cfg_name m) seed h (utcnow env w) = (i, conn1)"
    by (cases "insert_run conn (cfg_provider m) (cfg_name m) seed h (utcnow env w)")
  note t1 = insert_run_tables[OF ir]
  from Cons.prems obtain c2 g2 w2 where
    a: "run_languages env cfg m i (conn1, Random env (seed + i), w) (cfg_languages cfg)
          = Inr (c2, g2, w2)"
    and b: "run_models env cfg seed h (c2, w2) ms = Inr (conn', w')"
    by (auto simp: ir Let_def dest!: and_then_Inr)
  have v1: "visited env conn1 (cfg_languages cfg) = ?V" using t1(2) by (rule visited_cong)
  from run_languages_effect[OF a] have t2:
    "tbl_sentences c2 = tbl_sentences conn1" "tbl_runs c2 = tbl_runs conn1"
    "seq_runs c2 = seq_runs conn1"
    "map translation_key (tbl_translations c2)
       = map translation_key (tbl_translations conn1) @ map (\<lambda>row. (i, s_id row)) ?V"
    "map evaluation_entry (tbl_evaluations c2)
       = map evaluation_entry (tbl_evaluations conn1) @ run_entries env i (Random env (seed + i)) ?V"
    unfolding v1 by blast+
  have v2: "visited env c2 (cfg_languages cfg) = ?V"
    using t2(1) t1(2) by (intro visited_cong) simp
  have ids2: "run_ids c2 (length ms) = map (\<lambda>j. i + 1 + int j) [0..<length ms]"
    unfolding run_ids_def t2(2) t2(3) t1(5) t1(7) unfolding t1(1) new_rowid_next ..
  have ids: "run_ids conn (length (m # ms)) = i # run_ids c2 (length ms)"
    unfolding ids2 using run_ids_Suc[of conn "length ms"] by (simp add: t1(1))
  from Cons.IH[OF b] have t3:
    "tbl_sentences conn' = tbl_sentences c2"
    "map r_id (tbl_runs conn') = map r_id (tbl_runs c2) @ run_ids c2 (length ms)"
    "map r_seed (tbl_runs conn') = map r_seed (tbl_runs c2) @ replicate (length ms) seed"
    "map translation_key (tbl_translations conn')
       = map translation_key (tbl_translations c2)
         @ concat (map (\<lambda>i. map (\<lambda>row. (i, s_id row)) ?V) (run_ids c2 (length ms)))"
    "map evaluation_entry (tbl_evaluations conn')
       = map evaluation_entry (tbl_evaluations c2)
         @ concat (map (\<lambda>i. run_entries env i (Random env (seed + i)) ?V) (run_ids c2 (length ms)))"
    unfolding v2 by blast+
  show ?case
  proof (intro conjI)
    show "tbl_sentences conn' = tbl_sentences conn" using t3(1) t2(1) t1(2) by simp
    show "map r_id (tbl_runs conn') = map r_id (tbl_runs conn) @ run_ids conn (length (m # ms))"
      unfolding t3(2) t2(2) t1(5) ids by simp
    show "map r_seed (tbl_runs conn')
            = map r_seed (tbl_runs conn) @ replicate (length (m # ms)) seed"
      unfolding t3(3) t2(2) t1(6) by simp
    show "map translation_key (tbl_translations conn')
           = map translation_key (tbl_translations conn)
             @ concat (map (\<lambda>i. map (\<lambda>row. (i, s_id row)) ?V) (run_ids conn (length (m # ms))))"
      unfolding t3(4) t2(4) t1(3) ids by simp
    show "map evaluation_entry (tbl_evaluations conn')
           = map evaluation_entry (tbl_evaluations conn)
             @ concat (map (\<lambda>i. run_entries env i (Random env (seed + i)) ?V)
                         (run_ids conn (length (m # ms))))"
      unfolding t3(5) t2(5) t1(4) ids by simp
  qed
qed

lemma insert_or_ignore_tables:
  "tbl_runs (insert_or_ignore_sentence conn l orig hu go) = tbl_runs conn"
  "seq_runs (insert_or_ignore_sentence conn l orig hu go) = seq_runs conn"
  "tbl_translations (insert_or_ignore_sentence conn l orig hu go) = tbl_translations conn"
  "tbl_evaluations (insert_or_ignore_sentence conn l orig hu go) = tbl_evaluations conn"
  by (simp_all add: insert_or_ignore_sentence_def Let_def)

lemma insert_or_ignore_distinct_ids:
  assumes "distinct (map s_id (tbl_sentences conn))"
  shows "distinct (map s_id (tbl_sentences (insert_or_ignore_sentence conn l orig hu go)))"
  using assms new_rowid_fresh[of "seq_sentences conn" "map s_id (tbl_sentences conn)"]
  by (simp add: insert_or_ignore_sentence_def Let_def)

lemma insert_sentence_result:
  "insert_sentence conn l orig hu go = Inr (i, conn')
     \<Longrightarrow> conn' = insert_or_ignore_sentence conn l orig hu go"
  by (auto simp: insert_sentence_def Let_def split: option.splits)

lemma load_rows_effect:
  assumes "load_rows conn rows = Inr conn'"
  shows "tbl_runs conn' = tbl_runs conn \<and> seq_runs conn' = seq_runs conn
       \<and> tbl_translations conn' = tbl_translations conn
       \<and> tbl_evaluations conn' = tbl_evaluations conn
       \<and> (distinct (map s_id (tbl_sentences conn)) \<longrightarrow> distinct (map s_id (tbl_sentences conn')))"
  using assms
proof (induction rows arbitrary: conn)
  case Nil
  then show ?case by simp
next
  case (Cons row rows)
  from Cons.prems obtain i c1 where
    a: "insert_sentence conn (csv_language row) (csv_original_text row)
          (csv_translation_human row) (csv_translation_google row) = Inr (i, c1)"
    and b: "load_rows c1 rows = Inr conn'"
    by (auto dest!: and_then_Inr)
  note c1 = insert_sentence_result[OF a]
  from Cons.IH[OF b] show ?case
    unfolding c1 by (simp add: insert_or_ignore_tables insert_or_ignore_distinct_ids)
qed

lemma load_seed_data_effect:
  assumes "load_seed_data env conn dir langs = Inr conn'"
  shows "tbl_runs conn' = tbl_runs conn \<and> seq_runs conn' = seq_runs conn
       \<and> tbl_translations conn' = tbl_translations conn
       \<and> tbl_evaluations conn' = tbl_evaluations conn
       \<and> (distinct (map s_id (tbl_sentences conn)) \<longrightarrow> distinct (map s_id (tbl_sentences conn')))"
  using assms
proof (induction langs arbitrary: conn)
  case Nil
  then show ?case by simp
next
  case (Cons lang langs)
  from Cons.prems obtain df c1 where
    a: "load_rows conn df = Inr c1" and b: "load_seed_data env c1 dir langs = Inr conn'"
    by (auto split: option.splits dest!: and_then_Inr)
  from Cons.IH[OF b] load_rows_effect[OF a] show ?case by simp
qed

lemma pipeline_trace:
  assumes "run_pipeline env cfg conn w = Inr (conn', w')"
  shows "map r_id (tbl_runs conn')
           = map r_id (tbl_runs conn) @ run_ids conn (length (cfg_models cfg))"
    and "map r_seed (tbl_runs conn')
           = map r_seed (tbl_runs conn) @ replicate (length (cfg_models cfg)) (config_seed cfg)"
    and "map translation_key (tbl_translations conn')
           = map translation_key (tbl_translations conn)
             @ concat (map (\<lambda>i. map (\<lambda>row. (i, s_id row)) (visited env conn' (cfg_languages cfg)))
                         (run_ids conn (length (cfg_models cfg))))"
    and "map evaluation_entry (tbl_evaluations conn')
           = map evaluation_entry (tbl_evaluations conn)
             @ concat (map (\<lambda>i. run_entries env i (Random env (config_seed cfg + i))
                                   (visited env conn' (cfg_languages cfg)))
                         (run_ids conn (length (cfg_models cfg))))"
    and "distinct (map s_id (tbl_sentences conn)) \<Longrightarrow> distinct (map s_id (tbl_sentences conn'))"
proof -
  from assms obtain c1 where
    a: "load_seed_data env conn (cfg_seed_dir cfg) (cfg_languages cfg) = Inr c1"
    and b: "run_models env cfg (config_seed cfg) (config_hash env cfg) (c1, w) (cfg_models cfg)
              = Inr (conn', w')"
    unfolding run_pipeline_def Let_def by (auto dest!: and_then_Inr)
  from load_seed_data_effect[OF a] have l:
    "tbl_runs c1 = tbl_runs conn" "seq_runs c1 = seq_runs conn"
    "tbl_translations c1 = tbl_translations conn" "tbl_evaluations c1 = tbl_evaluations conn"
    "distinct (map s_id (tbl_sentences conn)) \<longrightarrow> distinct (map s_id (tbl_sentences c1))"
    by blast+
  have ids: "run_ids c1 n = run_ids conn n" for n by (simp add: run_ids_def l)
  from run_models_effect[OF b] have r:
    "tbl_sentences conn' = tbl_sentences c1"
    "map r_id (tbl_runs conn') = map r_id (tbl_runs c1) @ run_ids c1 (length (cfg_models cfg))"
    "map r_seed (tbl_runs conn')
       = map r_seed (tbl_runs c1) @ replicate (length (cfg_models cfg)) (config_seed cfg)"
    "map translation_key (tbl_translations conn')
       = map translation_key (tbl_translations c1)
         @ concat (map (\<lambda>i. map (\<lambda>row. (i, s_id row)) (visited env c1 (cfg_languages cfg)))
                     (run_ids c1 (length (cfg_models cfg))))"
    "map evaluation_entry (tbl_evaluations conn')
       = map evaluation_entry (tbl_evaluations c1)
         @ concat (map (\<lambda>i. run_entries env i (Random env (config_seed cfg + i))
                               (visited env c1 (cfg_languages cfg)))
                     (run_ids c1 (length (cfg_models cfg))))"
    by blast+
  have v: "visited env c1 (cfg_languages cfg) = visited env conn' (cfg_languages cfg)"
    using r(1) by (intro visited_cong) simp
  show "map r_id (tbl_runs conn')
           = map r_id (tbl_runs conn) @ run_ids conn (length (cfg_models cfg))"
    using r(2) by (simp add: l ids)
  show "map r_seed (tbl_runs conn')
           = map r_seed (tbl_runs conn) @ replicate (length (cfg_models cfg)) (config_seed cfg)"
    using r(3) by (simp add: l)
  show "map translation_key (tbl_translations conn')
           = map translation_key (tbl_translations conn)
             @ concat (map (\<lambda>i. map (\<lambda>row. (i, s_id row)) (visited env conn' (cfg_languages cfg)))
                         (run_ids conn (length (cfg_models cfg))))"
    using r(4) unfolding v ids l .
  show "map evaluation_entry (tbl_evaluations conn')
           = map evaluation_entry (tbl_evaluations conn)
             @ concat (map (\<lambda>i. run_entries env i (Random env (config_seed cfg + i))
                                   (visited env conn' (cfg_languages cfg)))
                         (run_ids conn (length (cfg_models cfg))))"
    using r(5) unfolding v ids l .
  show "distinct (map s_id (tbl_sentences conn')) " if "distinct (map s_id (tbl_sentences conn))"
    using that l(5) r(1) by simp
qed

lemma count_filter_distinct:
  assumes "distinct (map f xs)" and "x \<in> set xs"
  shows "count_list (map f (filter P xs)) (f x) = (if P x then 1 else 0)"
  using assms
proof (induction xs)
  case Nil
  then show ?case by simp
next
  case (Cons a xs)
  show ?case
  proof (cases "a = x")
    case True
    have "f x \<notin> set (map f (filter P xs))" using Cons.prems(1) True by auto
    then have "count_list (map f (filter P xs)) (f x) = 0" by (simp add: count_list_0_iff)
    with True show ?thesis by simp
  next
    case False
    with Cons.prems have x: "x \<in> set xs" and "f a \<noteq> f x" by force+
    with Cons.IH Cons.prems(1) show ?thesis by simp
  qed
qed

lemma count_list_mset: "count_list xs x = count (mset xs) x"
  by (induction xs) simp_all

lemma count_select:
  assumes "distinct (map s_id (tbl_sentences c))" and "s \<in> set (tbl_sentences c)"
  shows "count_list (map s_id (select_sentences c l)) (s_id s) = (if s_language s = l then 1 else 0)"
proof -
  have "mset (map s_id (select_sentences c l))
          = mset (map s_id (filter (\<lambda>s. s_language s = l) (tbl_sentences c)))"
    by (simp add: select_sentences_def)
  then have "count_list (map s_id (select_sentences c l)) (s_id s)
          = count_list (map s_id (filter (\<lambda>s. s_language s = l) (tbl_sentences c))) (s_id s)"
    by (simp only: count_list_mset)
  also have "\<dots> = (if s_language s = l then 1 else 0)"
    using assms by (rule count_filter_distinct)
  finally show ?thesis .
qed

lemma count_visited:
  assumes "distinct (map s_id (tbl_sentences c))" and "s \<in> set (tbl_sentences c)"
  shows "count_list (map s_id (visited env c langs)) (s_id s)
           = length (filter (\<lambda>lang. capitalize env lang = s_language s) langs)"
proof (induction langs)
  case Nil
  then show ?case by (simp add: visited_def)
next
  case (Cons lang langs)
  have v: "visited env c (lang # langs) = select_sentences c (capitalize env lang) @ visited env c langs"
    by (simp add: visited_def)
  show ?case
    unfolding v using Cons count_select[OF assms, of "capitalize env lang"] by auto
qed

lemma count_run_block:
  "count_list (map (\<lambda>row. (i' :: int, f row)) V) (i, x)
     = (if i' = i then count_list (map f V) x else 0)"
  by (induction V) auto

lemma count_concat_runs:
  assumes "distinct ids" and "i \<in> set ids"
  shows "count_list (concat (map (\<lambda>i'. map (\<lambda>row. (i' :: int, f row)) V) ids)) (i, x)
           = count_list (map f V) x"
  using assms
proof (induction ids)
  case Nil
  then show ?case by simp
next
  case (Cons a ids)
  show ?case
  proof (cases "a = i")
    case True
    with Cons.prems have "i \<notin> set ids" by simp
    then have "count_list (concat (map (\<lambda>i'. map (\<lambda>row. (i', f row)) V) ids)) (i, x) = 0"
      by (induction ids) (auto simp: count_run_block)
    with True show ?thesis by (simp add: count_run_block)
  next
    case False
    with Cons show ?thesis by (simp add: count_run_block)
  qed
qed

lemma distinct_run_ids: "distinct (run_ids conn n)"
  unfolding run_ids_def by (simp add: distinct_map inj_on_def)

lemma run_entries_keys:
  "map (\<lambda>(i, s, m). (i, s)) (run_entries env i g V) = map (\<lambda>row. (i, s_id row)) V"
  by (induction V arbitrary: g) simp_all

lemma evaluation_key_entry: "evaluation_key e = (\<lambda>(i, s, m). (i, s)) (evaluation_entry e)"
  by (simp add: evaluation_key_def evaluation_entry_def)

lemma shuffle_three_unfold:
  "shuffle g [a, b, c] =
      (let j = shd g mod 3; k = shd (stl g) mod 2;
           x1 = [a, b, c][Suc (Suc 0) := [a, b, c] ! j, j := c]
       in (x1[Suc 0 := x1 ! k, k := x1 ! Suc 0], stl (stl g)))"
proof -
  have len: "length [a, b, c] - 1 = Suc (Suc 0)" by simp
  have m3: "Suc (Suc 0) + 1 = (3::nat)" by simp
  have m2: "Suc 0 + 1 = (2::nat)" by simp
  show ?thesis
    unfolding shuffle_def len shuffle_loop.simps randbelow_def m3 m2 Let_def
    by (simp only: prod.case list.sel nth_Cons_Suc nth_Cons_0)
qed

lemma mod3_cases: "(n::nat) mod 3 = 0 \<or> n mod 3 = 1 \<or> n mod 3 = 2"
  by linarith

lemma mod2_cases: "(n::nat) mod 2 = 0 \<or> n mod 2 = 1"
  by linarith

lemma shuffle_three:
  "shuffle g [a, b, c] =
     ((if shd g mod 3 = 0 then (if shd (stl g) mod 2 = 0 then [b, c, a] else [c, b, a])
       else if shd g mod 3 = 1 then (if shd (stl g) mod 2 = 0 then [c, a, b] else [a, c, b])
       else (if shd (stl g) mod 2 = 0 then [b, a, c] else [a, b, c])),
      stl (stl g))"
proof -
  have u: "shuffle g [a, b, c] =
      (let j = shd g mod 3; k = shd (stl g) mod 2;
           x1 = [a, b, c][Suc (Suc 0) := [a, b, c] ! j, j := c]
       in (x1[Suc 0 := x1 ! k, k := x1 ! Suc 0], stl (stl g)))"
    by (rule shuffle_three_unfold)
  have two: "(2::nat) = Suc (Suc 0)" by simp
  from mod3_cases[of "shd g"] mod2_cases[of "shd (stl g)"] show ?thesis
  proof (elim disjE)
    assume "shd g mod 3 = 0" "shd (stl g) mod 2 = 0"
    then show ?thesis unfolding u by simp
  next
    assume "shd g mod 3 = 0" "shd (stl g) mod 2 = 1"
    then show ?thesis unfolding u by simp
  next
    assume "shd g mod 3 = 1" "shd (stl g) mod 2 = 0"
    then show ?thesis unfolding u by simp
  next
    assume "shd g mod 3 = 1" "shd (stl g) mod 2 = 1"
    then show ?thesis unfolding u by simp
  next
    assume "shd g mod 3 = 2" "shd (stl g) mod 2 = 0"
    then show ?thesis unfolding u by (simp add: two)
  next
    assume "shd g mod 3 = 2" "shd (stl g) mod 2 = 1"
    then show ?thesis unfolding u by (simp add: two)
  qed
qed

section \<open>Runs of the orchestrator\<close>


lemma scripted_process_row:
  assumes "cfg_provider m = ''openai''"
  shows "process_row (scripted_env files [(''{}'', JObj [])]) cfg m i lang
           (conn, g, t # ''{}'' # rest) row
         = Inr (insert_evaluation (insert_translation conn i (s_id row) (str_strip t)) i (s_id row)
                  (show_map (JObj [])) (show_map (mapping_json_obj (provenance_at g))),
                sdrop 2 g, rest)"
proof -
  let ?env = "scripted_env files [(''{}'', JObj [])]"
  have call: "call_model (env_gateway ?env) (r # w) ''openai'' mo sp up = Inr (str_strip r, w)"
    for r w mo sp up
    by (simp add: call_model_def openai_chat_def scripted_env_def scripted_create_def and_then_def)
  have parse: "parse_json_response (json_loads ?env) (str_strip ''{}'') = Inr (JObj [])"
    by (simp add: parse_json_response_def scripted_env_def loads_table_def str_eval)
  obtain labels mapping g1 where
    pbl: "prepare_blind_labels g (str_strip t) (s_translation_google row) (s_translation_human row)
            = ((labels, mapping), g1)"
    by (metis prod.exhaust)
  have mapping: "mapping = provenance_at g"
    using provenance_text_independent[of g "str_strip t" "s_translation_google row" "s_translation_human row"]
    by (simp add: pbl)
  have g1: "g1 = sdrop 2 g"
    using prepare_blind_labels_rng[of g "str_strip t" "s_translation_google row" "s_translation_human row"]
    by (simp add: pbl)
  have "map fst labels = [''A'', ''B'', ''C'']"
    using entries_facts(3)[of g "str_strip t" "s_translation_google row" "s_translation_human row"]
    by (simp add: pbl)
  then obtain a b c where labels: "labels = [(''A'', a), (''B'', b), (''C'', c)]"
    by (auto simp: map_eq_Cons_conv)
  have dumps: "json_dumps ?env = show_map" by (simp add: scripted_env_def)
  show ?thesis
    unfolding process_row_def get_translation_def blind_evaluate_def Let_def
    by (simp add: assms call and_then_def pbl labels dict_lookup_def parse mapping g1 dumps)
qed

lemma two_spellings_seeded:
  "load_seed_data (scripted_env two_spellings_files T) empty_db ''data'' [''finnish'', ''Finnish'']
   = Inr (empty_db\<lparr>tbl_sentences :=
              [\<lparr>s_id = 1, s_language = ''finnish'', s_original_text = ''Hello.'',
                  s_translation_human = ''Hei.'', s_translation_google = ''Terve.''\<rparr>,
               \<lparr>s_id = 2, s_language = ''Finnish'', s_original_text = ''A fine day.'',
                  s_translation_human = ''Upea.'', s_translation_google = ''Hieno.''\<rparr>],
            seq_sentences := 2\<rparr>)"
  by (simp add: scripted_env_def two_spellings_files_def insert_sentence_def
      insert_or_ignore_sentence_def same_key_def new_rowid_def and_then_def empty_db_def Let_def)

lemma scripted_env_fields:
  "utcnow (scripted_env files tbl) w = ''2024-01-01T00:00:00''"
  "Random (scripted_env files tbl) n = siterate Suc (nat n)"
  "config_hash (scripted_env files tbl) cfg = ''c0ffee''"
  "capitalize (scripted_env files tbl) l = ascii_capitalize l"
  by (simp_all add: scripted_env_def)

lemma map_drop_append:
  assumes "map f ys = map f xs @ L"
  shows "map f (drop (length xs) ys) = L"
proof -
  have "map f (drop (length xs) ys) = drop (length (map f xs)) (map f ys)"
    by (simp add: drop_map)
  also have "\<dots> = L" unfolding assms by simp
  finally show ?thesis .
qed

lemma run_entries_maps:
  "map (\<lambda>x. snd (snd x)) (run_entries env i g V)
     = map (\<lambda>k. json_dumps env (mapping_json_obj (provenance_at (sdrop (2 * k) g))))
         [0..<length V]"
proof (induction V arbitrary: g)
  case Nil
  then show ?case by simp
next
  case (Cons row V)
  have upt: "[0..<length (row # V)] = 0 # map Suc [0..<length V]"
    by (simp add: upt_conv_Cons map_Suc_upt del: upt_Suc)
  have "map (\<lambda>x. snd (snd x)) (run_entries env i g (row # V))
          = json_dumps env (mapping_json_obj (provenance_at g))
            # map (\<lambda>k. json_dumps env (mapping_json_obj (provenance_at (sdrop (2 * k) (sdrop 2 g)))))
                [0..<length V]"
    by (simp only: run_entries.simps list.map snd_conv Cons.IH)
  also have "\<dots> = json_dumps env (mapping_json_obj (provenance_at (sdrop (2 * 0) g)))
            # map (\<lambda>k. json_dumps env (mapping_json_obj (provenance_at (sdrop (2 * Suc k) g))))
                [0..<length V]"
    by (simp only: sdrop_step mult_0_right sdrop.simps)
  also have "\<dots> = map (\<lambda>k. json_dumps env (mapping_json_obj (provenance_at (sdrop (2 * k) g))))
                      [0..<length (row # V)]"
    unfolding upt by (simp only: list.map map_map comp_def)
  finally show ?case .
qed

lemma filter_run_entries:
  "filter (\<lambda>x. fst x = i) (run_entries env j g V) = (if j = i then run_entries env j g V else [])"
  by (induction V arbitrary: g) auto

lemma filter_concat_runs:
  assumes "distinct ids" and "i \<in> set ids"
  shows "filter (\<lambda>x. fst x = i) (concat (map (\<lambda>j. run_entries env j (G j) V) ids))
           = run_entries env i (G i) V"
  using assms
proof (induction ids)
  case Nil
  then show ?case by simp
next
  case (Cons a ids)
  show ?case
  proof (cases "a = i")
    case True
    with Cons.prems have "i \<notin> set ids" by simp
    then have "filter (\<lambda>x. fst x = i) (concat (map (\<lambda>j. run_entries env j (G j) V) ids)) = []"
      by (induction ids) (auto simp: filter_run_entries)
    with True show ?thesis by (simp add: filter_run_entries)
  next
    case False
    with Cons show ?thesis by (simp add: filter_run_entries)
  qed
qed

lemma stored_maps_of_run:
  assumes "map evaluation_entry es = concat (map (\<lambda>j. run_entries env j (G j) V) ids)"
    and "distinct ids" and "i \<in> set ids"
  shows "map e_mapping_json (filter (\<lambda>e. e_run_id e = i) es)
           = map (\<lambda>k. json_dumps env (mapping_json_obj (provenance_at (sdrop (2 * k) (G i)))))
               [0..<length V]"
proof -
  have "map e_mapping_json (filter (\<lambda>e. e_run_id e = i) es)
          = map (\<lambda>x. snd (snd x)) (filter (\<lambda>x. fst x = i) (map evaluation_entry es))"
    by (induction es) (simp_all add: evaluation_entry_def)
  also have "\<dots> = map (\<lambda>x. snd (snd x)) (run_entries env i (G i) V)"
    unfolding assms(1) by (simp only: filter_concat_runs[OF assms(2,3)])
  finally show ?thesis by (simp only: run_entries_maps)
qed

lemma scripted_eval_rules:
  "provenance_at (siterate Suc 43) = [(''A'', ''Human''), (''B'', ''GPT''), (''C'', ''Google'')]"
  "provenance_at (siterate Suc 45) = [(''A'', ''Google''), (''B'', ''Human''), (''C'', ''GPT'')]"
  "provenance_at (siterate Suc 8) = [(''A'', ''GPT''), (''B'', ''Google''), (''C'', ''Human'')]"
  "provenance_at (siterate Suc 10) = [(''A'', ''GPT''), (''B'', ''Human''), (''C'', ''Google'')]"
  "provenance_at (siterate Suc 9) = [(''A'', ''Google''), (''B'', ''Human''), (''C'', ''GPT'')]"
  "provenance_at (siterate Suc 11) = [(''A'', ''Google''), (''B'', ''GPT''), (''C'', ''Human'')]"
  by (simp_all add: provenance_at_def prepare_blind_labels_def shuffle_three)

lemmas run_eval = insert_run_def new_rowid_def empty_db_def Let_def
  select_sentences_def ascii_capitalize_def ascii_upper_def ascii_lower_def scripted_process_row
  and_then_def scripted_env_fields insert_translation_def insert_evaluation_def
  show_map_def mapping_json_obj_def str_strip_def is_space_def scripted_eval_rules

lemma two_spellings_run:
  "run_pipeline (scripted_env two_spellings_files [(''{}'', JObj [])]) two_spellings_cfg empty_db
     [''Kaunis.'', ''{}'', ''Kaunis.'', ''{}''] = Inr (two_spellings_result, [])"
proof -
  let ?E = "scripted_env two_spellings_files [(''{}'', JObj [])]"
  let ?seeded = "empty_db\<lparr>tbl_sentences :=
              [\<lparr>s_id = 1, s_language = ''finnish'', s_original_text = ''Hello.'',
                  s_translation_human = ''Hei.'', s_translation_google = ''Terve.''\<rparr>,
               \<lparr>s_id = 2, s_language = ''Finnish'', s_original_text = ''A fine day.'',
                  s_translation_human = ''Upea.'', s_translation_google = ''Hieno.''\<rparr>],
            seq_sentences := 2\<rparr>"
  have seed: "load_seed_data ?E empty_db (cfg_seed_dir two_spellings_cfg)
                (cfg_languages two_spellings_cfg) = Inr ?seeded"
    by (simp add: two_spellings_cfg_def two_spellings_seeded del: load_seed_data.simps)
  have cs: "config_seed two_spellings_cfg = 42"
    by (simp add: config_seed_def two_spellings_cfg_def)
  have run: "run_models ?E two_spellings_cfg 42 (config_hash ?E two_spellings_cfg)
               (?seeded, [''Kaunis.'', ''{}'', ''Kaunis.'', ''{}'']) (cfg_models two_spellings_cfg)
             = Inr (two_spellings_result, [])"
    by (simp add: two_spellings_cfg_def run_eval two_spellings_result_def)
  show ?thesis
    unfolding run_pipeline_def Let_def seed cs
    by (simp only: and_then_def sum.case run)
qed

lemma finnish_seeded:
  "load_seed_data (scripted_env finnish_files T) empty_db ''data'' [''finnish'']
   = Inr (empty_db\<lparr>tbl_sentences :=
              [\<lparr>s_id = 1, s_language = ''Finnish'', s_original_text = ''A fine day.'',
                  s_translation_human = ''Upea.'', s_translation_google = ''Hieno.''\<rparr>,
               \<lparr>s_id = 2, s_language = ''Finnish'', s_original_text = ''Hello.'',
                  s_translation_human = ''Hei.'', s_translation_google = ''Terve.''\<rparr>],
            seq_sentences := 2\<rparr>)"
  by (simp add: scripted_env_def finnish_files_def insert_sentence_def
      insert_or_ignore_sentence_def same_key_def new_rowid_def and_then_def empty_db_def Let_def)

lemma two_models_run:
  "run_pipeline (scripted_env finnish_files [(''{}'', JObj [])]) two_models_cfg empty_db
     [''Kaunis.'', ''{}'', ''Moi.'', ''{}'', ''Ihana.'', ''{}'', ''Hei hei.'', ''{}'']
   = Inr (two_models_result, [])"
proof -
  let ?E = "scripted_env finnish_files [(''{}'', JObj [])]"
  let ?seeded = "empty_db\<lparr>tbl_sentences :=
              [\<lparr>s_id = 1, s_language = ''Finnish'', s_original_text = ''A fine day.'',
                  s_translation_human = ''Upea.'', s_translation_google = ''Hieno.''\<rparr>,
               \<lparr>s_id = 2, s_language = ''Finnish'', s_original_text = ''Hello.'',
                  s_translation_human = ''Hei.'', s_translation_google = ''Terve.''\<rparr>],
            seq_sentences := 2\<rparr>"
  have seed: "load_seed_data ?E empty_db (cfg_seed_dir two_models_cfg)
                (cfg_languages two_models_cfg) = Inr ?seeded"
    by (simp add: two_models_cfg_def finnish_seeded del: load_seed_data.simps)
  have cs: "config_seed two_models_cfg = 7"
    by (simp add: config_seed_def two_models_cfg_def)
  have run: "run_models ?E two_models_cfg 7 (config_hash ?E two_models_cfg)
               (?seeded, [''Kaunis.'', ''{}'', ''Moi.'', ''{}'', ''Ihana.'', ''{}'', ''Hei hei.'', ''{}''])
               (cfg_models two_models_cfg)
             = Inr (two_models_result, [])"
    by (simp add: two_models_cfg_def run_eval two_models_result_def)
  show ?thesis
    unfolding run_pipeline_def Let_def seed cs
    by (simp only: and_then_def sum.case run)
qed

lemma length_filter_distinct:
  assumes "distinct (map f xs)"
  shows "length (filter (\<lambda>x. f x = y) xs) = (if y \<in> set (map f xs) then 1 else 0)"
  using assms
proof (induction xs)
  case Nil
  then show ?case by simp
next
  case (Cons a xs)
  then show ?case by (cases "f a = y") (auto simp: filter_empty_conv)
qed

text \<open>
  Claim C5, as amended. When \<open>run_pipeline\<close> returns, it has added one run per
  configured model, with the identities \<open>run_ids\<close>. Take one of these runs and a stored
  sentence whose language column holds the capitalised form of a configured language,
  which is what the query of the run asks for. The Translation rows added for the pair,
  and likewise the Evaluation rows, are as many as the entries of the configured list
  with that capitalised form: at least one, and exactly one when the capitalised forms
  of the configured languages are pairwise distinct.
\<close>

theorem run_pipeline_rows_per_sentence:
  assumes "run_pipeline env cfg conn w = Inr (conn', w')"
    and "distinct (map s_id (tbl_sentences conn))"
    and "i \<in> set (run_ids conn (length (cfg_models cfg)))"
    and "s \<in> set (tbl_sentences conn')"
    and "s_language s \<in> set (map (capitalize env) (cfg_languages cfg))"
  shows "map r_id (drop (length (tbl_runs conn)) (tbl_runs conn'))
           = run_ids conn (length (cfg_models cfg))
       \<and> distinct (run_ids conn (length (cfg_models cfg)))
       \<and> count_list (map translation_key
                        (drop (length (tbl_translations conn)) (tbl_translations conn')))
            (i, s_id s)
           = length (filter (\<lambda>lang. capitalize env lang = s_language s) (cfg_languages cfg))
       \<and> count_list (map evaluation_key
                        (drop (length (tbl_evaluations conn)) (tbl_evaluations conn')))
            (i, s_id s)
           = length (filter (\<lambda>lang. capitalize env lang = s_language s) (cfg_languages cfg))
       \<and> 1 \<le> length (filter (\<lambda>lang. capitalize env lang = s_language s) (cfg_languages cfg))
       \<and> (distinct (map (capitalize env) (cfg_languages cfg)) \<longrightarrow>
            count_list (map translation_key
                          (drop (length (tbl_translations conn)) (tbl_translations conn')))
              (i, s_id s) = 1
          \<and> count_list (map evaluation_key
                          (drop (length (tbl_evaluations conn)) (tbl_evaluations conn')))
              (i, s_id s) = 1)"
proof -
  let ?ids = "run_ids conn (length (cfg_models cfg))"
  let ?V = "visited env conn' (cfg_languages cfg)"
  let ?n = "length (filter (\<lambda>lang. capitalize env lang = s_language s) (cfg_languages cfg))"
  note tr = pipeline_trace[OF assms(1)]
  have d': "distinct (map s_id (tbl_sentences conn'))" using tr(5) assms(2) by blast
  have dids: "distinct ?ids" by (rule distinct_run_ids)
  have cv: "count_list (map s_id ?V) (s_id s) = ?n"
    using d' assms(4) by (rule count_visited)
  have runs: "map r_id (drop (length (tbl_runs conn)) (tbl_runs conn')) = ?ids"
    using tr(1) by (rule map_drop_append)
  have "map translation_key (drop (length (tbl_translations conn)) (tbl_translations conn'))
          = concat (map (\<lambda>i. map (\<lambda>row. (i, s_id row)) ?V) ?ids)"
    using tr(3) by (rule map_drop_append)
  then have ct: "count_list (map translation_key
                    (drop (length (tbl_translations conn)) (tbl_translations conn'))) (i, s_id s)
                  = count_list (map s_id ?V) (s_id s)"
    by (simp only: count_concat_runs[OF dids assms(3)])
  have ee: "map evaluation_entry (drop (length (tbl_evaluations conn)) (tbl_evaluations conn'))
          = concat (map (\<lambda>i. run_entries env i (Random env (config_seed cfg + i)) ?V) ?ids)"
    using tr(4) by (rule map_drop_append)
  have k: "map evaluation_key es = map (\<lambda>(i, s, m). (i, s)) (map evaluation_entry es)" for es
    by (induction es) (simp_all add: evaluation_key_entry)
  have "map evaluation_key (drop (length (tbl_evaluations conn)) (tbl_evaluations conn'))
          = map (\<lambda>(i, s, m). (i, s))
              (concat (map (\<lambda>i. run_entries env i (Random env (config_seed cfg + i)) ?V) ?ids))"
    by (simp only: k ee)
  also have "\<dots> = concat (map (\<lambda>i. map (\<lambda>(i, s, m). (i, s))
                        (run_entries env i (Random env (config_seed cfg + i)) ?V)) ?ids)"
    by (simp only: map_concat map_map comp_def)
  also have "\<dots> = concat (map (\<lambda>i. map (\<lambda>row. (i, s_id row)) ?V) ?ids)"
    by (simp only: run_entries_keys)
  finally have "map evaluation_key (drop (length (tbl_evaluations conn)) (tbl_evaluations conn'))
          = concat (map (\<lambda>i. map (\<lambda>row. (i, s_id row)) ?V) ?ids)" .
  then have ce: "count_list (map evaluation_key
                    (drop (length (tbl_evaluations conn)) (tbl_evaluations conn'))) (i, s_id s)
                  = count_list (map s_id ?V) (s_id s)"
    by (simp only: count_concat_runs[OF dids assms(3)])
  have one: "?n = 1" if "distinct (map (capitalize env) (cfg_languages cfg))"
    using length_filter_distinct[OF that, of "s_language s"] assms(5) by simp
  from assms(5) obtain lang where "lang \<in> set (cfg_languages cfg)"
      and "capitalize env lang = s_language s" by auto
  then have "filter (\<lambda>lang. capitalize env lang = s_language s) (cfg_languages cfg) \<noteq> []"
    by (auto simp: filter_empty_conv)
  then have pos: "1 \<le> ?n" by (simp add: Suc_le_eq)
  from runs dids ct ce cv one pos show ?thesis by simp
qed

theorem run_pipeline_rows_per_sentence_witness:
  "run_pipeline (scripted_env finnish_files [(''{}'', JObj [])]) two_models_cfg empty_db
     [''Kaunis.'', ''{}'', ''Moi.'', ''{}'', ''Ihana.'', ''{}'', ''Hei hei.'', ''{}'']
     = Inr (two_models_result, [])
   \<and> map r_id (tbl_runs two_models_result) = [1, 2]
   \<and> count_list (map translation_key (tbl_translations two_models_result)) (2, 1) = 1
   \<and> count_list (map evaluation_key (tbl_evaluations two_models_result)) (2, 1) = 1"
proof -
  let ?E = "scripted_env finnish_files [(''{}'', JObj [])]"
  let ?s = "\<lparr>s_id = 1, s_language = ''Finnish'', s_original_text = ''A fine day.'',
             s_translation_human = ''Upea.'', s_translation_google = ''Hieno.''\<rparr>"
  have 2: "distinct (map s_id (tbl_sentences empty_db))" by (simp add: empty_db_def)
  have ids: "run_ids empty_db (length (cfg_models two_models_cfg)) = [1, 2]"
    by (simp add: run_ids_def empty_db_def new_rowid_def two_models_cfg_def upt_conv_Cons)
  have 3: "2 \<in> set (run_ids empty_db (length (cfg_models two_models_cfg)))"
    unfolding ids by simp
  have 4: "?s \<in> set (tbl_sentences two_models_result)"
    by (simp add: two_models_result_def)
  have caps: "map (capitalize ?E) (cfg_languages two_models_cfg) = [''Finnish'']"
    by (simp add: two_models_cfg_def scripted_env_fields ascii_capitalize_def ascii_upper_def
        ascii_lower_def)
  have 5: "s_language ?s \<in> set (map (capitalize ?E) (cfg_languages two_models_cfg))"
    unfolding caps by simp
  have d: "distinct (map (capitalize ?E) (cfg_languages two_models_cfg))"
    unfolding caps by simp
  from run_pipeline_rows_per_sentence[OF two_models_run 2 3 4 5] d
  have "map r_id (drop (length (tbl_runs empty_db)) (tbl_runs two_models_result)) = [1, 2]
      \<and> count_list (map translation_key
           (drop (length (tbl_translations empty_db)) (tbl_translations two_models_result)))
           (2, s_id ?s) = 1
      \<and> count_list (map evaluation_key
           (drop (length (tbl_evaluations empty_db)) (tbl_evaluations two_models_result)))
           (2, s_id ?s) = 1"
    unfolding ids by blast
  then have "map r_id (tbl_runs two_models_result) = [1, 2]
      \<and> count_list (map translation_key (tbl_translations two_models_result)) (2, 1) = 1
      \<and> count_list (map evaluation_key (tbl_evaluations two_models_result)) (2, 1) = 1"
    by (simp add: empty_db_def)
  with two_models_run show ?thesis by (rule conjI)
qed

text \<open>
  Claim C5 fails as stated. With the languages \<open>finnish\<close> and \<open>Finnish\<close> configured
  and one sentence stored under each spelling, the run completes, and the sentence
  stored under \<open>Finnish\<close> (identity 2) gets two Translation rows and two Evaluation rows
  within the one run: the query asks for \<open>lang.capitalize()\<close>, which is \<open>Finnish\<close> for
  both configured names. The sentence that the loader stored under \<open>finnish\<close>
  (identity 1), as its seed file spells the language, gets no row at all: no query asks
  for that spelling.
\<close>

theorem run_pipeline_skips_and_repeats:
  "run_pipeline (scripted_env two_spellings_files [(''{}'', JObj [])]) two_spellings_cfg empty_db
     [''Kaunis.'', ''{}'', ''Kaunis.'', ''{}''] = Inr (two_spellings_result, [])
   \<and> cfg_languages two_spellings_cfg = [''finnish'', ''Finnish'']
   \<and> map r_id (tbl_runs two_spellings_result) = [1]
   \<and> map s_id (tbl_sentences two_spellings_result) = [1, 2]
   \<and> map s_language (tbl_sentences two_spellings_result) = [''finnish'', ''Finnish'']
   \<and> map translation_key (tbl_translations two_spellings_result) = [(1, 2), (1, 2)]
   \<and> map evaluation_key (tbl_evaluations two_spellings_result) = [(1, 2), (1, 2)]
   \<and> count_list (map translation_key (tbl_translations two_spellings_result)) (1, 1) = 0
   \<and> count_list (map translation_key (tbl_translations two_spellings_result)) (1, 2) = 2"
  by (simp add: two_spellings_run)
     (simp add: two_spellings_cfg_def two_spellings_result_def translation_key_def
        evaluation_key_def)

lemma prepare_blind_labels_two_draws:
  assumes "stake 2 g = stake 2 g'"
  shows "fst (prepare_blind_labels g a b c) = fst (prepare_blind_labels g' a b c)"
proof -
  have "stake (Suc (Suc 0)) g = stake (Suc (Suc 0)) g'"
    using assms by (simp only: numeral_2_eq_2)
  then have "shd g = shd g'" and "shd (stl g) = shd (stl g')" by simp_all
  then show ?thesis
    by (simp add: prepare_blind_labels_def shuffle_three)
qed

text \<open>
  Claim C4. The provenance map that \<open>prepare_blind_labels\<close> returns is a function of the
  generator state alone (\<open>provenance_at\<close>), the labels are a function of the state and the
  texts, both are fixed by the next two draws of the generator, and the call leaves the
  generator two draws further. A run's generator is \<open>Random(seed + run_id)\<close> with the
  configured seed and the run's identity; so when \<open>run_pipeline\<close> returns, every run it
  added is stored with the configured seed, and the provenance maps stored for run \<open>i\<close>
  are, in order, the maps drawn from \<open>Random(seed + i)\<close> after 0, 2, 4, ... draws: the
  sequence depends on the seed, the run identity and the number of rows only.
\<close>

theorem permutation_sequence_reproducible:
  "snd (fst (prepare_blind_labels g a b c)) = provenance_at g
   \<and> snd (prepare_blind_labels g a b c) = sdrop 2 g
   \<and> (stake 2 g = stake 2 g' \<longrightarrow>
        fst (prepare_blind_labels g a b c) = fst (prepare_blind_labels g' a b c))
   \<and> (run_pipeline env cfg conn w = Inr (conn', w') \<longrightarrow>
        map r_id (drop (length (tbl_runs conn)) (tbl_runs conn'))
          = run_ids conn (length (cfg_models cfg))
        \<and> map r_seed (drop (length (tbl_runs conn)) (tbl_runs conn'))
          = replicate (length (cfg_models cfg)) (config_seed cfg)
        \<and> (\<forall>i \<in> set (run_ids conn (length (cfg_models cfg))).
              map e_mapping_json
                (filter (\<lambda>e. e_run_id e = i)
                   (drop (length (tbl_evaluations conn)) (tbl_evaluations conn')))
              = map (\<lambda>k. json_dumps env (mapping_json_obj
                            (provenance_at (sdrop (2 * k) (Random env (config_seed cfg + i))))))
                  [0..<length (visited env conn' (cfg_languages cfg))]))"
proof (intro conjI impI ballI)
  show "snd (fst (prepare_blind_labels g a b c)) = provenance_at g"
    by (rule provenance_text_independent)
  show "snd (prepare_blind_labels g a b c) = sdrop 2 g"
    by (rule prepare_blind_labels_rng)
next
  assume "stake 2 g = stake 2 g'"
  then show "fst (prepare_blind_labels g a b c) = fst (prepare_blind_labels g' a b c)"
    by (rule prepare_blind_labels_two_draws)
next
  assume run: "run_pipeline env cfg conn w = Inr (conn', w')"
  note tr = pipeline_trace[OF run]
  show "map r_id (drop (length (tbl_runs conn)) (tbl_runs conn'))
          = run_ids conn (length (cfg_models cfg))"
    using tr(1) by (rule map_drop_append)
  show "map r_seed (drop (length (tbl_runs conn)) (tbl_runs conn'))
          = replicate (length (cfg_models cfg)) (config_seed cfg)"
    using tr(2) by (rule map_drop_append)
  fix i assume i: "i \<in> set (run_ids conn (length (cfg_models cfg)))"
  have ee: "map evaluation_entry (drop (length (tbl_evaluations conn)) (tbl_evaluations conn'))
          = concat (map (\<lambda>j. run_entries env j (Random env (config_seed cfg + j))
                                (visited env conn' (cfg_languages cfg)))
                      (run_ids conn (length (cfg_models cfg))))"
    using tr(4) by (rule map_drop_append)
  show "map e_mapping_json
          (filter (\<lambda>e. e_run_id e = i)
             (drop (length (tbl_evaluations conn)) (tbl_evaluations conn')))
        = map (\<lambda>k. json_dumps env (mapping_json_obj
                      (provenance_at (sdrop (2 * k) (Random env (config_seed cfg + i))))))
            [0..<length (visited env conn' (cfg_languages cfg))]"
    using ee distinct_run_ids i by (rule stored_maps_of_run)
qed

theorem permutation_sequence_reproducible_witness:
  "run_pipeline (scripted_env finnish_files [(''{}'', JObj [])]) two_models_cfg empty_db
     [''Kaunis.'', ''{}'', ''Moi.'', ''{}'', ''Ihana.'', ''{}'', ''Hei hei.'', ''{}'']
     = Inr (two_models_result, [])
   \<and> map r_seed (tbl_runs two_models_result) = [7, 7]
   \<and> map e_mapping_json (filter (\<lambda>e. e_run_id e = 2) (tbl_evaluations two_models_result))
     = [''{A:Google;B:Human;C:GPT;}'', ''{A:Google;B:GPT;C:Human;}'']
   \<and> fst (prepare_blind_labels (1 ## 1 ## sconst 0) ''kaunis'' ''hieno'' ''upea'')
     = fst (prepare_blind_labels (1 ## 1 ## sconst 5) ''kaunis'' ''hieno'' ''upea'')"
proof -
  let ?E = "scripted_env finnish_files [(''{}'', JObj [])]"
  have ids: "run_ids empty_db (length (cfg_models two_models_cfg)) = [1, 2]"
    by (simp add: run_ids_def empty_db_def new_rowid_def two_models_cfg_def upt_conv_Cons)
  have v: "length (visited ?E two_models_result (cfg_languages two_models_cfg)) = 2"
    by (simp add: visited_def two_models_cfg_def two_models_result_def select_sentences_def
        scripted_env_fields ascii_capitalize_def ascii_upper_def ascii_lower_def)
  have cs: "config_seed two_models_cfg = 7"
    by (simp add: config_seed_def two_models_cfg_def)
  have upt: "[0..<2] = [0, Suc 0]" by (simp add: upt_conv_Cons)
  have maps: "map (\<lambda>k. json_dumps ?E (mapping_json_obj
                    (provenance_at (sdrop (2 * k) (Random ?E (7 + 2))))))
                [0..<2]
              = [''{A:Google;B:Human;C:GPT;}'', ''{A:Google;B:GPT;C:Human;}'']"
    unfolding upt
    by (simp add: scripted_env_def scripted_eval_rules show_map_def mapping_json_obj_def)
  have draws: "stake 2 (1 ## 1 ## sconst 0) = stake 2 (1 ## 1 ## sconst (5 :: nat))"
    by (simp add: numeral_2_eq_2)
  note inst = permutation_sequence_reproducible[of "1 ## 1 ## sconst 0" "''kaunis''" "''hieno''"
      "''upea''" "1 ## 1 ## sconst 5" ?E two_models_cfg empty_db
      "[''Kaunis.'', ''{}'', ''Moi.'', ''{}'', ''Ihana.'', ''{}'', ''Hei hei.'', ''{}'']"
      two_models_result "[]"]
  from inst draws
  have same: "fst (prepare_blind_labels (1 ## 1 ## sconst 0) ''kaunis'' ''hieno'' ''upea'')
     = fst (prepare_blind_labels (1 ## 1 ## sconst 5) ''kaunis'' ''hieno'' ''upea'')"
    by blast
  from inst two_models_run
  have "map r_seed (drop (length (tbl_runs empty_db)) (tbl_runs two_models_result))
          = replicate (length (cfg_models two_models_cfg)) (config_seed two_models_cfg)"
    and "\<forall>i \<in> set (run_ids empty_db (length (cfg_models two_models_cfg))).
              map e_mapping_json
                (filter (\<lambda>e. e_run_id e = i)
                   (drop (length (tbl_evaluations empty_db)) (tbl_evaluations two_models_result)))
              = map (\<lambda>k. json_dumps ?E (mapping_json_obj
                            (provenance_at (sdrop (2 * k) (Random ?E (config_seed two_models_cfg + i))))))
                  [0..<length (visited ?E two_models_result (cfg_languages two_models_cfg))]"
    by blast+
  then have "map r_seed (tbl_runs two_models_result) = [7, 7]"
    and "map e_mapping_json (filter (\<lambda>e. e_run_id e = 2) (tbl_evaluations two_models_result))
         = map (\<lambda>k. json_dumps ?E (mapping_json_obj
                    (provenance_at (sdrop (2 * k) (Random ?E (7 + 2))))))
                [0..<2]"
    unfolding ids v cs by (simp_all add: empty_db_def two_models_cfg_def)
  then have "map r_seed (tbl_runs two_models_result) = [7, 7]
      \<and> map e_mapping_json (filter (\<lambda>e. e_run_id e = 2) (tbl_evaluations two_models_result))
        = [''{A:Google;B:Human;C:GPT;}'', ''{A:Google;B:GPT;C:Human;}'']"
    unfolding maps by (rule conjI)
  with two_models_run same show ?thesis by blast
qed

end
